theory Spec2Isabelle
  imports Main "HOL-Library.Word"
begin

section \<open>The signaling worker: data model\<close>

text \<open>
  The worker keeps one global table \<^verbatim>\<open>rooms\<close> (room id to room object) and one
  \<^verbatim>\<open>peer\<close> object per accepted WebSocket. A room's \<^verbatim>\<open>peers\<close> is a JavaScript
  \<^verbatim>\<open>Map\<close> from peer id to the peer object itself, so a room and the connection's
  event handlers share each peer object. The model keeps the peer objects in an explicit
  store \<open>conns\<close>, addressed by the peer's id (the id is assigned once from
  \<^verbatim>\<open>crypto.randomUUID()\<close> and never changes, so it serves as the reference), and a
  room's \<^verbatim>\<open>peers\<close> as the list of its keys in insertion order.

  A socket is modelled by two fields of its peer: \<open>sock_open\<close> (whether
  \<^verbatim>\<open>socket.send\<close> succeeds; it throws on a stale socket, which is what the
  \<^verbatim>\<open>try/catch\<close> of \<^verbatim>\<open>broadcast\<close> is for) and \<open>outbox\<close> (the messages
  delivered to the client so far, oldest first).

  The handlers take the id of the peer object they work on. A lookup of an id that the
  store does not hold has no counterpart in the worker, where a reference always leads to
  its object: the model gives such a lookup the branch that does nothing (a send to it
  fails), and no state that the events below reach ever takes that branch.
\<close>

type_synonym peer_id = string

text \<open>
  A JavaScript string is a sequence of UTF-16 code units. The room id is the one string
  the worker looks into (it is trimmed), so room ids are kept as lists of code units;
  \<open>js\<close> gives the code units of a literal. The other strings (peer ids, key hashes,
  message types, names) are only compared and passed on.
\<close>

type_synonym code_unit = "16 word"

type_synonym jstring = "code_unit list"

definition js :: "string \<Rightarrow> jstring" where
  "js x = map (\<lambda>c. of_nat (of_char c)) x"

text \<open>
  The \<^verbatim>\<open>sdp\<close> and \<^verbatim>\<open>ice\<close> payloads are JSON values that the relay passes on without
  looking inside (of the numbers, the integers stand for all).
\<close>

datatype json = JNull | JBool bool | JNum int | JStr string
  | JArr "json list" | JObj "(string \<times> json) list"

record pname =
  displayName :: string
  deviceName :: string
  device_type :: string

datatype peer_info = PeerInfo peer_id bool pname

datatype out_msg =
    Welcome peer_id jstring "peer_info list" string string
  | PeerJoined peer_info
  | PeerLeft peer_id
  | Signal peer_id "json option" "json option"
  | RoomKeyMismatch
  | ErrorNotice string

record peer =
  roomId :: "jstring option"
  roomKeyHash :: string
  name :: pname
  rtcSupported :: bool
  sock_open :: bool
  outbox :: "out_msg list"

record room =
  keyHash :: string
  peers :: "peer_id list"

record state =
  rooms :: "jstring \<rightharpoonup> room"
  conns :: "peer_id \<rightharpoonup> peer"

text \<open>
  A decoded inbound message: the properties the handlers read, \<open>None\<close> where the
  property is absent. \<^verbatim>\<open>roomId\<close>, \<^verbatim>\<open>roomKeyHash\<close> and \<^verbatim>\<open>to\<close> are strings and
  \<^verbatim>\<open>rtcSupported\<close> a boolean, as the protocol declares them; \<^verbatim>\<open>sdp\<close> and
  \<^verbatim>\<open>ice\<close> are arbitrary JSON values.
\<close>

record msg =
  msg_type :: "string option"
  msg_roomId :: "jstring option"
  msg_roomKeyHash :: "string option"
  msg_rtcSupported :: "bool option"
  msg_to :: "string option"
  msg_sdp :: "json option"
  msg_ice :: "json option"

text \<open>
  An inbound frame: text that \<^verbatim>\<open>JSON.parse\<close> rejects, the JSON value \<^verbatim>\<open>null\<close>
  (reading \<^verbatim>\<open>msg.type\<close> of it throws), or any other value, seen through the
  properties above (a number, string, boolean or array has none of them).
\<close>

datatype frame = Undecodable | ParsedNull | Parsed msg

text \<open>How a call ends: it returns, or an exception propagates to the caller.\<close>

datatype outcome = Normal | Thrown

section \<open>Observations\<close>

definition peer_room :: "state \<Rightarrow> peer_id \<Rightarrow> jstring option" where
  "peer_room s p = (case conns s p of None \<Rightarrow> None | Some c \<Rightarrow> roomId c)"

definition received :: "state \<Rightarrow> peer_id \<Rightarrow> out_msg list" where
  "received s p = (case conns s p of None \<Rightarrow> [] | Some c \<Rightarrow> outbox c)"

definition is_open :: "state \<Rightarrow> peer_id \<Rightarrow> bool" where
  "is_open s p = (case conns s p of None \<Rightarrow> False | Some c \<Rightarrow> sock_open c)"

definition members :: "state \<Rightarrow> jstring \<Rightarrow> peer_id list" where
  "members s r = (case rooms s r of None \<Rightarrow> [] | Some rm \<Rightarrow> peers rm)"

section \<open>The handlers\<close>

text \<open>
  \<^verbatim>\<open>String.prototype.trim\<close> removes, from both ends, the code units that are white space
  or line terminators in ECMAScript: TAB, LF, VT, FF, CR, SPACE, U+00A0, U+1680, U+2000
  to U+200A, U+2028, U+2029, U+202F, U+205F, U+3000 and U+FEFF. All of them are single
  code units, and no surrogate is among them.
\<close>

definition is_space :: "code_unit \<Rightarrow> bool" where
  "is_space c \<longleftrightarrow>
     c = 0x0009 \<or> c = 0x000A \<or> c = 0x000B \<or> c = 0x000C \<or> c = 0x000D \<or> c = 0x0020 \<or>
     c = 0x00A0 \<or> c = 0x1680 \<or> (0x2000 \<le> c \<and> c \<le> 0x200A) \<or> c = 0x2028 \<or>
     c = 0x2029 \<or> c = 0x202F \<or> c = 0x205F \<or> c = 0x3000 \<or> c = 0xFEFF"

definition trim :: "jstring \<Rightarrow> jstring" where
  "trim x = rev (dropWhile is_space (rev (dropWhile is_space x)))"

text \<open>\<^verbatim>\<open>String(v || '')\<close> for an optional string property.\<close>

definition str_or_empty :: "'a list option \<Rightarrow> 'a list" where
  "str_or_empty v = (case v of None \<Rightarrow> [] | Some x \<Rightarrow> x)"

text \<open>\<^verbatim>\<open>!v\<close> for a string or \<^verbatim>\<open>null\<close>: \<open>v\<close> is \<^verbatim>\<open>null\<close> or the empty string.\<close>

definition falsy :: "'a list option \<Rightarrow> bool" where
  "falsy v = (case v of None \<Rightarrow> True | Some x \<Rightarrow> x = [])"

text \<open>
  \<^verbatim>\<open>socket.send(data)\<close> on the socket of peer \<open>p\<close>: the message is delivered, or the
  call throws because the socket is no longer open.
\<close>

definition send :: "peer_id \<Rightarrow> out_msg \<Rightarrow> state \<Rightarrow> outcome \<times> state" where
  "send p m s =
     (case conns s p of
        None \<Rightarrow> (Thrown, s)
      | Some c \<Rightarrow>
          if sock_open c
          then (Normal, s\<lparr>conns := (conns s)(p \<mapsto> c\<lparr>outbox := outbox c @ [m]\<rparr>)\<rparr>)
          else (Thrown, s))"

text \<open>An assignment to fields of the peer object \<open>p\<close>.\<close>

definition upd_peer :: "peer_id \<Rightarrow> (peer \<Rightarrow> peer) \<Rightarrow> state \<Rightarrow> state" where
  "upd_peer p f s =
     (case conns s p of None \<Rightarrow> s | Some c \<Rightarrow> s\<lparr>conns := (conns s)(p \<mapsto> f c)\<rparr>)"

text \<open>A mutation of the room object registered under \<open>rid\<close>.\<close>

definition upd_room :: "jstring \<Rightarrow> (room \<Rightarrow> room) \<Rightarrow> state \<Rightarrow> state" where
  "upd_room rid f s =
     (case rooms s rid of None \<Rightarrow> s | Some rm \<Rightarrow> s\<lparr>rooms := (rooms s)(rid \<mapsto> f rm)\<rparr>)"

text \<open>
  \<^verbatim>\<open>room.peers.set(peer.id, peer)\<close> on the list of keys: a key that is present keeps its
  place, a new one goes to the end.
\<close>

definition peers_set :: "peer_id \<Rightarrow> peer_id list \<Rightarrow> peer_id list" where
  "peers_set p qs = (if p \<in> set qs then qs else qs @ [p])"

definition asPeerInfo :: "peer_id \<Rightarrow> peer \<Rightarrow> peer_info" where
  "asPeerInfo p c = PeerInfo p (rtcSupported c) (name c)"

text \<open>\<^verbatim>\<open>room.peers.values()\<close>: the peer objects a member list refers to, in order.\<close>

fun room_values :: "state \<Rightarrow> peer_id list \<Rightarrow> (peer_id \<times> peer) list" where
  "room_values s [] = []"
| "room_values s (q # qs) =
     (case conns s q of
        None \<Rightarrow> room_values s qs
      | Some c \<Rightarrow> (q, c) # room_values s qs)"

text \<open>
  \<^verbatim>\<open>broadcast(room, payload, exceptId)\<close>: the \<^verbatim>\<open>forEach\<close> over the room's peers in
  insertion order. \<^verbatim>\<open>exceptId && peer.id === exceptId\<close> skips a peer; an exception of
  \<^verbatim>\<open>send\<close> is caught inside the loop body and ignored.
\<close>

fun broadcast_loop :: "peer_id list \<Rightarrow> out_msg \<Rightarrow> peer_id option \<Rightarrow> state \<Rightarrow> state" where
  "broadcast_loop [] payload exceptId s = s"
| "broadcast_loop (q # qs) payload exceptId s =
     (if \<not> falsy exceptId \<and> Some q = exceptId
      then broadcast_loop qs payload exceptId s
      else (case send q payload s of
              (Normal, s') \<Rightarrow> broadcast_loop qs payload exceptId s'
            | (Thrown, s') \<Rightarrow> broadcast_loop qs payload exceptId s'))"

definition broadcast :: "room \<Rightarrow> out_msg \<Rightarrow> peer_id option \<Rightarrow> state \<Rightarrow> outcome \<times> state" where
  "broadcast rm payload exceptId s = (Normal, broadcast_loop (peers rm) payload exceptId s)"

text \<open>
  \<^verbatim>\<open>getOrCreateRoom(roomId, keyHash)\<close> returns the room and the registry that holds it.
\<close>

definition getOrCreateRoom :: "jstring \<Rightarrow> string \<Rightarrow> state \<Rightarrow> room \<times> state" where
  "getOrCreateRoom rid kh s =
     (case rooms s rid of
        None \<Rightarrow> (let rm = \<lparr>keyHash = kh, peers = []\<rparr>
                 in (rm, s\<lparr>rooms := (rooms s)(rid \<mapsto> rm)\<rparr>))
      | Some rm \<Rightarrow> (rm, s))"

text \<open>
  \<^verbatim>\<open>leaveRoom(peer)\<close>: both early returns, the removal from the member map, the
  \<^verbatim>\<open>peer-left\<close> broadcast to the members that remain, the removal of the room when its
  size is zero, and the reset of \<^verbatim>\<open>peer.roomId\<close>.
\<close>

definition leaveRoom :: "peer_id \<Rightarrow> state \<Rightarrow> outcome \<times> state" where
  "leaveRoom p s =
     (case peer_room s p of
        None \<Rightarrow> (Normal, s)
      | Some rid \<Rightarrow>
          if rid = [] then (Normal, s)
          else
            (case rooms s rid of
               None \<Rightarrow> (Normal, s)
             | Some rm0 \<Rightarrow>
                 (let rm = rm0\<lparr>peers := removeAll p (peers rm0)\<rparr>;
                      s1 = s\<lparr>rooms := (rooms s)(rid \<mapsto> rm)\<rparr>
                  in (case broadcast rm (PeerLeft p) (Some p) s1 of
                        (Thrown, s2) \<Rightarrow> (Thrown, s2)
                      | (Normal, s2) \<Rightarrow>
                          (let s3 = (if length (peers rm) = 0
                                     then s2\<lparr>rooms := (rooms s2)(rid := None)\<rparr> else s2)
                           in (Normal, upd_peer p (\<lambda>c. c\<lparr>roomId := None\<rparr>) s3))))))"

text \<open>
  \<^verbatim>\<open>joinRoom(peer, msg)\<close>. The states follow the statements of the source: \<open>s1\<close> after
  \<^verbatim>\<open>getOrCreateRoom\<close>, \<open>s2\<close> after the room has adopted the key, \<open>s3\<close> after the peer has
  left the room it was in, \<open>s4\<close> after the assignments to the peer, \<open>s5\<close> after
  \<^verbatim>\<open>room.peers.set\<close>, \<open>s6\<close> after the \<^verbatim>\<open>welcome\<close> has been sent. The variable
  \<^verbatim>\<open>room\<close> of the source is the object registered under the room id throughout, since
  \<^verbatim>\<open>leaveRoom\<close> only ever deletes the entry of another id; the model reads it from the
  registry. The key check comes before the leave step, and each \<^verbatim>\<open>send\<close> on the peer's
  own socket is outside any \<^verbatim>\<open>try\<close>.
\<close>

definition joinRoom :: "peer_id \<Rightarrow> msg \<Rightarrow> state \<Rightarrow> outcome \<times> state" where
  "joinRoom p m s =
     (let rid = trim (str_or_empty (msg_roomId m)) in
      if rid = [] then (Normal, s)
      else
        (let kh = str_or_empty (msg_roomKeyHash m) in
         (case getOrCreateRoom rid kh s of (rm, s1) \<Rightarrow>
            if keyHash rm \<noteq> [] \<and> kh \<noteq> keyHash rm then send p RoomKeyMismatch s1
            else
              (let s2 = (if keyHash rm = [] \<and> kh \<noteq> []
                         then upd_room rid (\<lambda>r. r\<lparr>keyHash := kh\<rparr>) s1 else s1)
               in (case (if \<not> falsy (peer_room s2 p) \<and> peer_room s2 p \<noteq> Some rid
                         then leaveRoom p s2 else (Normal, s2)) of
                     (Thrown, s3) \<Rightarrow> (Thrown, s3)
                   | (Normal, s3) \<Rightarrow>
                       (let s4 = upd_peer p (\<lambda>c. c\<lparr>roomId := Some rid, roomKeyHash := kh,
                                     rtcSupported := (msg_rtcSupported m \<noteq> Some False)\<rparr>) s3;
                            s5 = upd_room rid (\<lambda>r. r\<lparr>peers :=
                                     peers_set p (peers r)\<rparr>) s4
                        in (case (rooms s5 rid, conns s5 p) of
                              (Some rm5, Some c) \<Rightarrow>
                                (let roster = map (\<lambda>(q, d). asPeerInfo q d)
                                       (filter (\<lambda>(q, d). q \<noteq> p) (room_values s5 (peers rm5)))
                                 in (case send p (Welcome p rid roster
                                               (displayName (name c)) (deviceName (name c))) s5 of
                                       (Thrown, s6) \<Rightarrow> (Thrown, s6)
                                     | (Normal, s6) \<Rightarrow>
                                         broadcast rm5 (PeerJoined (asPeerInfo p c)) (Some p) s6))
                            | _ \<Rightarrow> (Normal, s5))))))))"

text \<open>
  \<^verbatim>\<open>relaySignal(peer, msg)\<close>: the target is looked up among all members of the sender's
  room, and the \<^verbatim>\<open>send\<close> on the target's socket is outside any \<^verbatim>\<open>try\<close>.
\<close>

definition relaySignal :: "peer_id \<Rightarrow> msg \<Rightarrow> state \<Rightarrow> outcome \<times> state" where
  "relaySignal p m s =
     (case peer_room s p of
        None \<Rightarrow> (Normal, s)
      | Some rid \<Rightarrow>
          if rid = [] then (Normal, s)
          else
            (case rooms s rid of
               None \<Rightarrow> (Normal, s)
             | Some rm \<Rightarrow>
                 (case msg_to m of
                    None \<Rightarrow> (Normal, s)
                  | Some t \<Rightarrow>
                      if t \<in> set (peers rm)
                      then send t (Signal p (msg_sdp m) (msg_ice m)) s
                      else (Normal, s))))"

text \<open>\<^verbatim>\<open>onMessage(peer, msg)\<close>: the \<^verbatim>\<open>switch\<close> on \<^verbatim>\<open>msg.type\<close>.\<close>

definition onMessage :: "peer_id \<Rightarrow> msg \<Rightarrow> state \<Rightarrow> outcome \<times> state" where
  "onMessage p m s =
     (if msg_type m = Some ''join'' then joinRoom p m s
      else if msg_type m = Some ''signal'' then relaySignal p m s
      else if msg_type m = Some ''disconnect'' then leaveRoom p s
      else if msg_type m = Some ''pong'' then (Normal, s)
      else (Normal, s))"

text \<open>
  The \<^verbatim>\<open>message\<close> listener: \<^verbatim>\<open>JSON.parse\<close> and \<^verbatim>\<open>onMessage\<close> run inside one
  \<^verbatim>\<open>try\<close>; whatever either of them throws is answered with the error notice.
\<close>

definition invalid_json :: out_msg where
  "invalid_json = ErrorNotice ''Invalid JSON message''"

definition on_message_event :: "peer_id \<Rightarrow> frame \<Rightarrow> state \<Rightarrow> outcome \<times> state" where
  "on_message_event p f s =
     (case f of
        Undecodable \<Rightarrow> send p invalid_json s
      | ParsedNull \<Rightarrow> send p invalid_json s
      | Parsed m \<Rightarrow>
          (case onMessage p m s of
             (Normal, s') \<Rightarrow> (Normal, s')
           | (Thrown, s') \<Rightarrow> send p invalid_json s'))"

text \<open>
  \<^verbatim>\<open>fetch\<close> on a WebSocket upgrade: a new peer object with a fresh id \<open>uid\<close> and the
  name \<open>nm\<close> that \<^verbatim>\<open>randomName()\<close> drew. Any other request changes nothing.
\<close>

definition fetch :: "bool \<Rightarrow> peer_id \<Rightarrow> pname \<Rightarrow> state \<Rightarrow> state" where
  "fetch upgrade uid nm s =
     (if \<not> upgrade then s
      else s\<lparr>conns := (conns s)(uid \<mapsto>
             \<lparr>roomId = None, roomKeyHash = [], name = nm, rtcSupported = True,
              sock_open = True, outbox = []\<rparr>)\<rparr>)"

section \<open>Events and reachable states\<close>

text \<open>
  What happens to the worker: a request, a frame on a connection, the \<^verbatim>\<open>close\<close> and
  \<^verbatim>\<open>error\<close> events of a connection (both run \<^verbatim>\<open>leaveRoom\<close>), and a socket going
  stale (its sends fail from then on) before the worker is told.
\<close>

datatype event =
    Fetch bool peer_id pname
  | Message peer_id frame
  | Close peer_id
  | SockError peer_id
  | Stale peer_id

definition step :: "event \<Rightarrow> state \<Rightarrow> state" where
  "step e s =
     (case e of
        Fetch upgrade uid nm \<Rightarrow> fetch upgrade uid nm s
      | Message p f \<Rightarrow> snd (on_message_event p f s)
      | Close p \<Rightarrow> snd (leaveRoom p s)
      | SockError p \<Rightarrow> snd (leaveRoom p s)
      | Stale p \<Rightarrow> upd_peer p (\<lambda>c. c\<lparr>sock_open := False\<rparr>) s)"

definition init :: state where
  "init = \<lparr>rooms = Map.empty, conns = Map.empty\<rparr>"

text \<open>
  An event can occur when it concerns an existing connection; a new connection gets an
  id that is not in use and, being a UUID, not empty.
\<close>

definition enabled :: "event \<Rightarrow> state \<Rightarrow> bool" where
  "enabled e s =
     (case e of
        Fetch upgrade uid nm \<Rightarrow> \<not> upgrade \<or> (uid \<noteq> [] \<and> conns s uid = None)
      | Message p f \<Rightarrow> conns s p \<noteq> None
      | Close p \<Rightarrow> conns s p \<noteq> None
      | SockError p \<Rightarrow> conns s p \<noteq> None
      | Stale p \<Rightarrow> conns s p \<noteq> None)"

inductive reachable :: "state \<Rightarrow> bool" where
  reachable_init: "reachable init"
| reachable_step: "reachable s \<Longrightarrow> enabled e s \<Longrightarrow> reachable (step e s)"

fun run :: "event list \<Rightarrow> state \<Rightarrow> state" where
  "run [] s = s"
| "run (e # es) s = run es (step e s)"

section \<open>Admission and roster entries\<close>

text \<open>
  Whether a join presenting \<open>kh\<close> passes the key check of \<^verbatim>\<open>joinRoom\<close>: the room does
  not exist yet (it is then created with \<open>kh\<close> as its secret), or its secret is empty, or
  it equals \<open>kh\<close>.
\<close>

definition admits :: "state \<Rightarrow> jstring \<Rightarrow> string \<Rightarrow> bool" where
  "admits s rid kh =
     (case rooms s rid of None \<Rightarrow> True | Some rm \<Rightarrow> keyHash rm = [] \<or> kh = keyHash rm)"

text \<open>What \<^verbatim>\<open>asPeerInfo\<close> says about the peer \<open>q\<close> in state \<open>s\<close>.\<close>

definition info :: "state \<Rightarrow> peer_id \<Rightarrow> peer_info option" where
  "info s q = (case conns s q of None \<Rightarrow> None | Some c \<Rightarrow> Some (asPeerInfo q c))"

section \<open>Invariants\<close>

text \<open>
  Membership is mutually consistent: a peer whose \<^verbatim>\<open>roomId\<close> is set is a member of
  that room, and every member of a room has that room's id as its \<^verbatim>\<open>roomId\<close>.
\<close>

definition consistent :: "state \<Rightarrow> bool" where
  "consistent s \<longleftrightarrow>
     (\<forall>p r. peer_room s p = Some r \<longrightarrow> p \<in> set (members s r)) \<and>
     (\<forall>r rm. rooms s r = Some rm \<longrightarrow> (\<forall>p\<in>set (peers rm). peer_room s p = Some r))"

text \<open>Every registered room has a member.\<close>

definition populated :: "state \<Rightarrow> bool" where
  "populated s \<longleftrightarrow> (\<forall>r rm. rooms s r = Some rm \<longrightarrow> peers rm \<noteq> [])"

text \<open>The same, but for the room a join is about to enter.\<close>

definition populated_but :: "jstring \<Rightarrow> state \<Rightarrow> bool" where
  "populated_but rid s \<longleftrightarrow> (\<forall>r rm. r \<noteq> rid \<longrightarrow> rooms s r = Some rm \<longrightarrow> peers rm \<noteq> [])"

text \<open>
  What the keys are: no room is registered under the empty id, no peer has the empty id,
  and a member list, being the keys of a \<^verbatim>\<open>Map\<close>, has no duplicates.
\<close>

definition well_keyed :: "state \<Rightarrow> bool" where
  "well_keyed s \<longleftrightarrow>
     rooms s [] = None \<and> conns s [] = None \<and>
     (\<forall>r rm. rooms s r = Some rm \<longrightarrow> distinct (peers rm))"

text \<open>
  \<open>deliver f s\<close> is \<open>s\<close> after each peer \<open>x\<close> has received the messages \<open>f x\<close>:
  the shape of every state change that only sends.
\<close>

definition deliver :: "(peer_id \<Rightarrow> out_msg list) \<Rightarrow> state \<Rightarrow> state" where
  "deliver f s = s\<lparr>conns := (\<lambda>x. case conns s x of None \<Rightarrow> None
                                  | Some c \<Rightarrow> Some (c\<lparr>outbox := outbox c @ f x\<rparr>))\<rparr>"

text \<open>
  Every room of \<open>s'\<close> was already registered in \<open>s\<close>, and a secret that was set in \<open>s\<close>
  is the same in \<open>s'\<close>.
\<close>

definition key_kept :: "state \<Rightarrow> state \<Rightarrow> bool" where
  "key_kept s s' \<longleftrightarrow>
     (\<forall>r rm'. rooms s' r = Some rm' \<longrightarrow>
        (\<exists>rm. rooms s r = Some rm \<and> (keyHash rm \<noteq> [] \<longrightarrow> keyHash rm' = keyHash rm)))"

text \<open>
  The lifetime of a room: \<open>r\<close> is registered in \<open>s\<close> and in every state the events
  \<open>es\<close> lead through from \<open>s\<close>.
\<close>

fun alive_through :: "jstring \<Rightarrow> event list \<Rightarrow> state \<Rightarrow> bool" where
  "alive_through r [] s = (rooms s r \<noteq> None)"
| "alive_through r (e # es) s = (rooms s r \<noteq> None \<and> alive_through r es (step e s))"

section \<open>Example runs\<close>

text \<open>Whether each event of a run can occur in the state it meets.\<close>

fun valid_run :: "event list \<Rightarrow> state \<Rightarrow> bool" where
  "valid_run [] s = True"
| "valid_run (e # es) s = (enabled e s \<and> valid_run es (step e s))"

definition fox :: pname where
  "fox = \<lparr>displayName = ''Swift-Fox'', deviceName = ''Swift-Fox Mobile'',
          device_type = ''desktop''\<rparr>"

definition join_msg :: "jstring \<Rightarrow> string \<Rightarrow> msg" where
  "join_msg r k = \<lparr>msg_type = Some ''join'', msg_roomId = Some r, msg_roomKeyHash = Some k,
     msg_rtcSupported = None, msg_to = None, msg_sdp = None, msg_ice = None\<rparr>"

definition signal_msg :: "string \<Rightarrow> json \<Rightarrow> msg" where
  "signal_msg t offer = \<lparr>msg_type = Some ''signal'', msg_roomId = None, msg_roomKeyHash = None,
     msg_rtcSupported = None, msg_to = Some t, msg_sdp = Some offer, msg_ice = None\<rparr>"

text \<open>
  Room ids as a client may send them, padded with white space that is not ASCII:
  \<open>R1\<close> between U+00A0, U+FEFF and U+2028, U+3000; \<open>R2\<close> between U+00A0 and U+2003,
  SPACE.
\<close>

definition padded_R1 :: jstring where
  "padded_R1 = 0x00A0 # 0xFEFF # js ''R1'' @ [0x2028, 0x3000]"

definition padded_R2 :: jstring where
  "padded_R2 = 0x00A0 # js ''R2'' @ [0x2003, 0x0020]"

text \<open>
  Three connections; \<open>A\<close> and \<open>C\<close> are in room \<open>R1\<close> (secret \<open>k1\<close>), \<open>B\<close> is in
  room \<open>R2\<close> (secret \<open>k2\<close>).
\<close>

definition lobby_events :: "event list" where
  "lobby_events =
     [Fetch True ''A'' fox, Fetch True ''B'' fox, Fetch True ''C'' fox,
      Message ''A'' (Parsed (join_msg (js ''R1'') ''k1'')),
      Message ''C'' (Parsed (join_msg (js ''R1'') ''k1'')),
      Message ''B'' (Parsed (join_msg (js ''R2'') ''k2''))]"

definition lobby :: state where
  "lobby = run lobby_events init"

text \<open>Two connections; \<open>A\<close> has opened room \<open>R\<close> without a key.\<close>

definition keyless_events :: "event list" where
  "keyless_events =
     [Fetch True ''A'' fox, Fetch True ''B'' fox, Message ''A'' (Parsed (join_msg (js ''R'') []))]"

definition keyless :: state where
  "keyless = run keyless_events init"

section \<open>Literals as code units\<close>

lemma js_Nil [simp]: "js [] = []"
  by (simp add: js_def)

lemma js_eq_Nil [simp]: "js x = [] \<longleftrightarrow> x = []"
  by (simp add: js_def)

lemma code_unit_of_char_eq:
  "(of_nat (of_char c) :: code_unit) = of_nat (of_char d) \<longleftrightarrow> c = d"
proof -
  have "take_bit 16 (of_char a :: nat) = of_char a" for a :: char
  proof (rule take_bit_nat_eq_self)
    have "(of_char a :: nat) < 256"
      by simp
    also have "(256 :: nat) < 2 ^ 16"
      by simp
    finally show "(of_char a :: nat) < 2 ^ 16" .
  qed
  then show ?thesis
    by (simp add: word_of_nat_eq_iff)
qed

lemma js_eq_iff [simp]: "js x = js y \<longleftrightarrow> x = y"
proof (induction x arbitrary: y)
  case Nil
  then show ?case
    by (cases y) (simp_all add: js_def)
next
  case (Cons c x)
  then show ?case
    by (cases y) (simp_all add: js_def code_unit_of_char_eq)
qed

section \<open>Sending\<close>

lemma rooms_deliver [simp]: "rooms (deliver f s) = rooms s"
  by (simp add: deliver_def)

lemma peer_room_deliver [simp]: "peer_room (deliver f s) = peer_room s"
  by (rule ext) (simp add: deliver_def peer_room_def split: option.splits)

lemma is_open_deliver [simp]: "is_open (deliver f s) = is_open s"
  by (rule ext) (simp add: deliver_def is_open_def split: option.splits)

lemma members_deliver [simp]: "members (deliver f s) = members s"
  by (rule ext) (simp add: members_def)

lemma conns_deliver_None [simp]: "conns (deliver f s) x = None \<longleftrightarrow> conns s x = None"
  by (simp add: deliver_def split: option.splits)

lemma received_deliver:
  "received (deliver f s) x = (if conns s x = None then [] else received s x @ f x)"
  by (simp add: deliver_def received_def split: option.splits)

lemma deliver_deliver: "deliver g (deliver f s) = deliver (\<lambda>x. f x @ g x) s"
  by (simp add: deliver_def fun_eq_iff split: option.splits)

lemma deliver_nothing: "(\<And>x. conns s x \<noteq> None \<Longrightarrow> f x = []) \<Longrightarrow> deliver f s = s"
  by (cases s) (auto simp add: deliver_def fun_eq_iff split: option.splits)

lemma deliver_cong: "(\<And>x. conns s x \<noteq> None \<Longrightarrow> f x = g x) \<Longrightarrow> deliver f s = deliver g s"
  by (auto simp add: deliver_def fun_eq_iff split: option.splits)

lemma send_deliver:
  "send q m s = (if is_open s q then Normal else Thrown,
                 deliver (\<lambda>x. if x = q \<and> is_open s q then [m] else []) s)"
  by (cases s) (auto simp add: send_def deliver_def is_open_def fun_eq_iff split: option.splits)

lemma broadcast_loop_deliver:
  "distinct qs \<Longrightarrow>
   broadcast_loop qs pl ex s =
     deliver (\<lambda>x. if x \<in> set qs \<and> \<not> (\<not> falsy ex \<and> Some x = ex) \<and> is_open s x
                  then [pl] else []) s"
proof (induction qs arbitrary: s)
  case Nil
  then show ?case by (simp add: deliver_nothing)
next
  case (Cons q qs)
  then show ?case
    by (auto simp add: send_deliver deliver_deliver intro!: deliver_cong)
qed

section \<open>What the handlers leave alone\<close>

lemma rooms_send [simp]: "rooms (snd (send q m s)) = rooms s"
  by (simp add: send_deliver)

lemma peer_room_send [simp]: "peer_room (snd (send q m s)) = peer_room s"
  by (simp add: send_deliver)

lemma is_open_send [simp]: "is_open (snd (send q m s)) = is_open s"
  by (simp add: send_deliver)

lemma conns_send_None [simp]: "conns (snd (send q m s)) x = None \<longleftrightarrow> conns s x = None"
  by (simp add: send_deliver)

lemma broadcast_loop_obs [simp]:
  "rooms (broadcast_loop qs pl ex s) = rooms s"
  "peer_room (broadcast_loop qs pl ex s) = peer_room s"
  "is_open (broadcast_loop qs pl ex s) = is_open s"
  "conns (broadcast_loop qs pl ex s) x = None \<longleftrightarrow> conns s x = None"
  by (induction qs arbitrary: s) (simp_all add: send_deliver)

lemma broadcast_Normal [simp]: "fst (broadcast rm pl ex s) = Normal"
  by (simp add: broadcast_def)

lemma broadcast_obs [simp]:
  "rooms (snd (broadcast rm pl ex s)) = rooms s"
  "peer_room (snd (broadcast rm pl ex s)) = peer_room s"
  "is_open (snd (broadcast rm pl ex s)) = is_open s"
  "conns (snd (broadcast rm pl ex s)) x = None \<longleftrightarrow> conns s x = None"
  by (simp_all add: broadcast_def)

lemma upd_peer_obs [simp]:
  "rooms (upd_peer p f s) = rooms s"
  "conns (upd_peer p f s) x = None \<longleftrightarrow> conns s x = None"
  by (simp_all add: upd_peer_def split: option.splits)

lemma peer_room_upd_peer:
  "peer_room (upd_peer p f s) x =
     (if x = p then (case conns s p of None \<Rightarrow> None | Some c \<Rightarrow> roomId (f c)) else peer_room s x)"
  by (simp add: upd_peer_def peer_room_def split: option.splits)

lemma upd_room_obs [simp]:
  "conns (upd_room r f s) = conns s"
  "peer_room (upd_room r f s) = peer_room s"
  "is_open (upd_room r f s) = is_open s"
  "received (upd_room r f s) = received s"
  by (simp_all add: upd_room_def peer_room_def is_open_def received_def fun_eq_iff split: option.splits)

lemma rooms_upd_room:
  "rooms (upd_room r f s) = (case rooms s r of None \<Rightarrow> rooms s | Some rm \<Rightarrow> (rooms s)(r \<mapsto> f rm))"
  by (simp add: upd_room_def split: option.splits)

lemma rooms_update_obs [simp]:
  "peer_room (s\<lparr>rooms := R\<rparr>) = peer_room s"
  "is_open (s\<lparr>rooms := R\<rparr>) = is_open s"
  "received (s\<lparr>rooms := R\<rparr>) = received s"
  by (simp_all add: peer_room_def is_open_def received_def fun_eq_iff)

lemma leaveRoom_Normal [simp]: "fst (leaveRoom p s) = Normal"
  by (simp add: leaveRoom_def Let_def broadcast_def split: option.splits)

lemma leaveRoom_idle:
  "falsy (peer_room s p) \<or> rooms s (str_or_empty (peer_room s p)) = None \<Longrightarrow> leaveRoom p s = (Normal, s)"
  by (auto simp add: leaveRoom_def falsy_def str_or_empty_def split: option.splits)

lemma rooms_leaveRoom:
  "rooms (snd (leaveRoom p s)) =
     (case peer_room s p of
        None \<Rightarrow> rooms s
      | Some rid \<Rightarrow>
          if rid = [] then rooms s
          else (case rooms s rid of
                  None \<Rightarrow> rooms s
                | Some rm \<Rightarrow> (rooms s)(rid := (if removeAll p (peers rm) = [] then None
                                               else Some (rm\<lparr>peers := removeAll p (peers rm)\<rparr>)))))"
  by (auto simp add: leaveRoom_def Let_def broadcast_def fun_eq_iff split: option.splits)

lemma peer_room_leaveRoom:
  "peer_room (snd (leaveRoom p s)) x =
     (if x = p \<and> \<not> falsy (peer_room s p) \<and> rooms s (str_or_empty (peer_room s p)) \<noteq> None
      then None else peer_room s x)"
  by (auto simp add: leaveRoom_def Let_def broadcast_def peer_room_upd_peer falsy_def str_or_empty_def
      split: option.splits)

lemma conns_leaveRoom_None [simp]: "conns (snd (leaveRoom p s)) x = None \<longleftrightarrow> conns s x = None"
  by (auto simp add: leaveRoom_def Let_def broadcast_def split: option.splits)

section \<open>The invariants under the leave sequence\<close>

lemma members_cong: "rooms s' = rooms s \<Longrightarrow> members s' = members s"
  by (simp add: members_def fun_eq_iff)

lemma consistent_cong:
  "rooms s' = rooms s \<Longrightarrow> peer_room s' = peer_room s \<Longrightarrow> consistent s' = consistent s"
  by (simp add: consistent_def members_def)

lemma populated_cong: "rooms s' = rooms s \<Longrightarrow> populated s' = populated s"
  by (simp add: populated_def)

lemma populated_but_cong: "rooms s' = rooms s \<Longrightarrow> populated_but r s' = populated_but r s"
  by (simp add: populated_but_def)

lemma well_keyed_cong:
  "rooms s' = rooms s \<Longrightarrow> (conns s' [] = None \<longleftrightarrow> conns s [] = None) \<Longrightarrow> well_keyed s' = well_keyed s"
  by (simp add: well_keyed_def)

lemma removeAll_Nil_iff: "removeAll p xs = [] \<longleftrightarrow> set xs \<subseteq> {p}"
  by (induction xs) auto

lemma mem_members: "p \<in> set (members s r) \<longleftrightarrow> (\<exists>rm. rooms s r = Some rm \<and> p \<in> set (peers rm))"
  by (cases "rooms s r") (simp_all add: members_def)

lemma consistentD1:
  "consistent s \<Longrightarrow> peer_room s p = Some r \<Longrightarrow> \<exists>rm. rooms s r = Some rm \<and> p \<in> set (peers rm)"
  by (simp add: consistent_def mem_members)

lemma consistentD2:
  "consistent s \<Longrightarrow> rooms s r = Some rm \<Longrightarrow> p \<in> set (peers rm) \<Longrightarrow> peer_room s p = Some r"
  by (auto simp add: consistent_def)

lemma consistentI:
  assumes "\<And>p r. peer_room s p = Some r \<Longrightarrow> \<exists>rm. rooms s r = Some rm \<and> p \<in> set (peers rm)"
    and "\<And>r rm p. rooms s r = Some rm \<Longrightarrow> p \<in> set (peers rm) \<Longrightarrow> peer_room s p = Some r"
  shows "consistent s"
  using assms by (simp add: consistent_def mem_members)

lemma consistent_leaveRoom:
  assumes "consistent s"
  shows "consistent (snd (leaveRoom p s))"
proof (rule consistentI)
  fix q r
  assume "peer_room (snd (leaveRoom p s)) q = Some r"
  then have q: "peer_room s q = Some r"
    and np: "q = p \<Longrightarrow> falsy (peer_room s p) \<or> rooms s (str_or_empty (peer_room s p)) = None"
    by (auto simp add: peer_room_leaveRoom split: if_splits)
  from consistentD1 [OF assms q] obtain rm where rm: "rooms s r = Some rm" "q \<in> set (peers rm)"
    by blast
  show "\<exists>rm. rooms (snd (leaveRoom p s)) r = Some rm \<and> q \<in> set (peers rm)"
    using q rm np
    by (auto simp add: rooms_leaveRoom removeAll_Nil_iff falsy_def str_or_empty_def
        split: option.splits)
next
  fix r rm q
  assume "rooms (snd (leaveRoom p s)) r = Some rm" "q \<in> set (peers rm)"
  then show "peer_room (snd (leaveRoom p s)) q = Some r"
    using assms
    by (auto simp add: rooms_leaveRoom peer_room_leaveRoom falsy_def str_or_empty_def
        dest: consistentD2 split: option.splits if_splits)
qed

lemma populated_leaveRoom: "populated s \<Longrightarrow> populated (snd (leaveRoom p s))"
  unfolding populated_def
  by (auto simp add: rooms_leaveRoom split: option.splits if_splits)

lemma populated_but_leaveRoom: "populated_but r s \<Longrightarrow> populated_but r (snd (leaveRoom p s))"
  unfolding populated_but_def
  by (auto simp add: rooms_leaveRoom split: option.splits if_splits)

lemma well_keyed_leaveRoom: "well_keyed s \<Longrightarrow> well_keyed (snd (leaveRoom p s))"
  unfolding well_keyed_def
  by (auto simp add: rooms_leaveRoom distinct_removeAll split: option.splits if_splits)

section \<open>The invariants under the steps of a join\<close>

lemma consistent_send [simp]: "consistent (snd (send q m s)) = consistent s"
  by (rule consistent_cong) simp_all

lemma populated_send [simp]: "populated (snd (send q m s)) = populated s"
  by (rule populated_cong) simp

lemma well_keyed_send [simp]: "well_keyed (snd (send q m s)) = well_keyed s"
  by (rule well_keyed_cong) simp_all

lemma consistent_broadcast [simp]: "consistent (snd (broadcast rm pl ex s)) = consistent s"
  by (rule consistent_cong) simp_all

lemma populated_broadcast [simp]: "populated (snd (broadcast rm pl ex s)) = populated s"
  by (rule populated_cong) simp

lemma well_keyed_broadcast [simp]: "well_keyed (snd (broadcast rm pl ex s)) = well_keyed s"
  by (rule well_keyed_cong) simp_all

lemma getOrCreateRoom_obs [simp]:
  "conns (snd (getOrCreateRoom rid kh s)) = conns s"
  "peer_room (snd (getOrCreateRoom rid kh s)) = peer_room s"
  "is_open (snd (getOrCreateRoom rid kh s)) = is_open s"
  "received (snd (getOrCreateRoom rid kh s)) = received s"
  "rooms (snd (getOrCreateRoom rid kh s)) rid = Some (fst (getOrCreateRoom rid kh s))"
  by (simp_all add: getOrCreateRoom_def Let_def peer_room_def is_open_def received_def fun_eq_iff
      split: option.splits)

lemma rooms_getOrCreateRoom:
  "rooms (snd (getOrCreateRoom rid kh s)) =
     (case rooms s rid of None \<Rightarrow> (rooms s)(rid \<mapsto> \<lparr>keyHash = kh, peers = []\<rparr>) | Some rm \<Rightarrow> rooms s)"
  by (simp add: getOrCreateRoom_def Let_def split: option.splits)

lemma fst_getOrCreateRoom:
  "fst (getOrCreateRoom rid kh s) =
     (case rooms s rid of None \<Rightarrow> \<lparr>keyHash = kh, peers = []\<rparr> | Some rm \<Rightarrow> rm)"
  by (simp add: getOrCreateRoom_def Let_def split: option.splits)

lemma getOrCreateRoom_rejects_only_existing:
  "keyHash (fst (getOrCreateRoom rid kh s)) \<noteq> [] \<and> kh \<noteq> keyHash (fst (getOrCreateRoom rid kh s))
   \<Longrightarrow> snd (getOrCreateRoom rid kh s) = s"
  by (auto simp add: getOrCreateRoom_def Let_def split: option.splits)

lemma consistent_getOrCreateRoom:
  assumes "consistent s"
  shows "consistent (snd (getOrCreateRoom rid kh s))"
proof (rule consistentI)
  fix q r
  assume "peer_room (snd (getOrCreateRoom rid kh s)) q = Some r"
  with consistentD1 [OF assms, of q r]
  show "\<exists>rm. rooms (snd (getOrCreateRoom rid kh s)) r = Some rm \<and> q \<in> set (peers rm)"
    by (auto simp add: rooms_getOrCreateRoom split: option.splits)
next
  fix r rm q
  assume "rooms (snd (getOrCreateRoom rid kh s)) r = Some rm" "q \<in> set (peers rm)"
  then show "peer_room (snd (getOrCreateRoom rid kh s)) q = Some r"
    using consistentD2 [OF assms, of r rm q]
    by (auto simp add: rooms_getOrCreateRoom split: option.splits if_splits)
qed

lemma populated_but_getOrCreateRoom:
  "populated s \<Longrightarrow> populated_but rid (snd (getOrCreateRoom rid kh s))"
  by (auto simp add: populated_def populated_but_def rooms_getOrCreateRoom split: option.splits)

lemma well_keyed_getOrCreateRoom:
  "rid \<noteq> [] \<Longrightarrow> well_keyed s \<Longrightarrow> well_keyed (snd (getOrCreateRoom rid kh s))"
  by (auto simp add: well_keyed_def rooms_getOrCreateRoom split: option.splits)

lemma consistent_adopt_key:
  assumes "consistent s"
  shows "consistent (upd_room rid (\<lambda>r. r\<lparr>keyHash := kh\<rparr>) s)"
proof (rule consistentI)
  fix q r
  assume "peer_room (upd_room rid (\<lambda>r. r\<lparr>keyHash := kh\<rparr>) s) q = Some r"
  with consistentD1 [OF assms, of q r]
  show "\<exists>rm. rooms (upd_room rid (\<lambda>r. r\<lparr>keyHash := kh\<rparr>) s) r = Some rm \<and> q \<in> set (peers rm)"
    by (auto simp add: rooms_upd_room split: option.splits)
next
  fix r rm q
  assume "rooms (upd_room rid (\<lambda>r. r\<lparr>keyHash := kh\<rparr>) s) r = Some rm" "q \<in> set (peers rm)"
  then show "peer_room (upd_room rid (\<lambda>r. r\<lparr>keyHash := kh\<rparr>) s) q = Some r"
    using consistentD2 [OF assms, of r _ q]
    by (auto simp add: rooms_upd_room split: option.splits if_splits)
qed

lemma populated_but_adopt_key:
  "populated_but r s \<Longrightarrow> populated_but r (upd_room rid (\<lambda>r. r\<lparr>keyHash := kh\<rparr>) s)"
  by (auto simp add: populated_but_def rooms_upd_room split: option.splits if_splits)

lemma well_keyed_adopt_key:
  "well_keyed s \<Longrightarrow> well_keyed (upd_room rid (\<lambda>r. r\<lparr>keyHash := kh\<rparr>) s)"
  by (auto simp add: well_keyed_def rooms_upd_room split: option.splits if_splits)

lemma consistent_enter:
  assumes "consistent s" and "peer_room s p = None \<or> peer_room s p = Some rid"
    and "conns s p \<noteq> None" and "rooms s rid \<noteq> None"
    and f: "\<And>c. roomId (f c) = Some rid"
  shows "consistent (upd_room rid (\<lambda>r. r\<lparr>peers := peers_set p (peers r)\<rparr>)
           (upd_peer p f s))"
proof (rule consistentI)
  fix q r
  assume "peer_room (upd_room rid (\<lambda>r. r\<lparr>peers := peers_set p (peers r)\<rparr>)
           (upd_peer p f s)) q = Some r"
  then have "(q = p \<and> r = rid) \<or> (q \<noteq> p \<and> peer_room s q = Some r)"
    using assms(3) by (auto simp add: peer_room_upd_peer f split: if_splits)
  then show "\<exists>rm. rooms (upd_room rid (\<lambda>r. r\<lparr>peers := peers_set p (peers r)\<rparr>)
           (upd_peer p f s)) r = Some rm \<and> q \<in> set (peers rm)"
    using assms(4) consistentD1 [OF assms(1), of q r]
    by (auto simp add: rooms_upd_room peers_set_def split: option.splits)
next
  fix r rm q
  assume "rooms (upd_room rid (\<lambda>r. r\<lparr>peers := peers_set p (peers r)\<rparr>)
           (upd_peer p f s)) r = Some rm" "q \<in> set (peers rm)"
  then show "peer_room (upd_room rid (\<lambda>r. r\<lparr>peers := peers_set p (peers r)\<rparr>)
           (upd_peer p f s)) q = Some r"
    using assms(1,2,3) consistentD1 [OF assms(1), of p]
    by (auto simp add: rooms_upd_room peer_room_upd_peer peers_set_def f dest: consistentD2
        split: option.splits if_splits)
qed

lemma populated_enter:
  assumes "populated_but rid s"
  shows "populated (upd_room rid (\<lambda>r. r\<lparr>peers := peers_set p (peers r)\<rparr>)
           (upd_peer p f s))"
  unfolding populated_def
proof (intro allI impI)
  fix r rm
  assume *: "rooms (upd_room rid (\<lambda>r. r\<lparr>peers := peers_set p (peers r)\<rparr>)
           (upd_peer p f s)) r = Some rm"
  show "peers rm \<noteq> []"
  proof (cases "r = rid")
    case True
    with * show ?thesis
      by (auto simp add: rooms_upd_room peers_set_def split: option.splits if_splits)
  next
    case False
    with * have "rooms s r = Some rm"
      by (auto simp add: rooms_upd_room peers_set_def split: option.splits if_splits)
    with False assms show ?thesis
      by (simp add: populated_but_def)
  qed
qed

lemma well_keyed_enter:
  assumes "well_keyed s"
  shows "well_keyed (upd_room rid (\<lambda>r. r\<lparr>peers := peers_set p (peers r)\<rparr>)
           (upd_peer p f s))"
  using assms
  by (auto simp add: well_keyed_def rooms_upd_room peers_set_def split: option.splits if_splits)

section \<open>The invariants under a join\<close>

lemma consistent_deliver [simp]: "consistent (deliver f s) = consistent s"
  by (rule consistent_cong) simp_all

lemma populated_deliver [simp]: "populated (deliver f s) = populated s"
  by (rule populated_cong) simp

lemma well_keyed_deliver [simp]: "well_keyed (deliver f s) = well_keyed s"
  by (rule well_keyed_cong) simp_all

lemma joinRoom_invariants:
  assumes c: "consistent s" and pop: "populated s" and wk: "well_keyed s"
    and p: "conns s p \<noteq> None"
  shows "consistent (snd (joinRoom p m s)) \<and> populated (snd (joinRoom p m s))
         \<and> well_keyed (snd (joinRoom p m s))"
proof -
  define rid where "rid = trim (str_or_empty (msg_roomId m))"
  define kh where "kh = str_or_empty (msg_roomKeyHash m)"
  define rm where "rm = fst (getOrCreateRoom rid kh s)"
  define s1 where "s1 = snd (getOrCreateRoom rid kh s)"
  define s2 where "s2 = (if keyHash rm = [] \<and> kh \<noteq> []
                         then upd_room rid (\<lambda>r. r\<lparr>keyHash := kh\<rparr>) s1 else s1)"
  define s3 where "s3 = (if \<not> falsy (peer_room s2 p) \<and> peer_room s2 p \<noteq> Some rid
                         then snd (leaveRoom p s2) else s2)"
  define f where "f = (\<lambda>c :: peer. c\<lparr>roomId := Some rid, roomKeyHash := kh,
                                     rtcSupported := (msg_rtcSupported m \<noteq> Some False)\<rparr>)"
  define s5 where "s5 = upd_room rid (\<lambda>r. r\<lparr>peers :=
                          peers_set p (peers r)\<rparr>) (upd_peer p f s3)"
  have g: "getOrCreateRoom rid kh s = (rm, s1)"
    by (simp add: rm_def s1_def)
  have l: "(if \<not> falsy (peer_room s2 p) \<and> peer_room s2 p \<noteq> Some rid
            then leaveRoom p s2 else (Normal, s2)) = (Normal, s3)"
    by (simp add: s3_def prod_eq_iff)
  show ?thesis
  proof (cases "rid = []")
    case True
    then show ?thesis
      using c pop wk by (simp add: joinRoom_def rid_def)
  next
    case rid: False
    show ?thesis
    proof (cases "keyHash rm \<noteq> [] \<and> kh \<noteq> keyHash rm")
      case True
      then have "s1 = s"
        unfolding rm_def s1_def by (rule getOrCreateRoom_rejects_only_existing)
      with True rid have "joinRoom p m s = send p RoomKeyMismatch s"
        using g by (simp add: joinRoom_def Let_def rid_def [symmetric] kh_def [symmetric])
      then show ?thesis
        using c pop wk by simp
    next
      case acc: False
      have c1: "consistent s1" and p1: "populated_but rid s1" and w1: "well_keyed s1"
        using c pop wk rid
        by (simp_all add: s1_def consistent_getOrCreateRoom populated_but_getOrCreateRoom
            well_keyed_getOrCreateRoom)
      have c2: "consistent s2" and p2: "populated_but rid s2" and w2: "well_keyed s2"
        using c1 p1 w1
        by (simp_all add: s2_def consistent_adopt_key populated_but_adopt_key well_keyed_adopt_key)
      have r2: "rooms s2 rid \<noteq> None"
        by (simp add: s2_def s1_def rooms_upd_room)
      have c3: "consistent s3" and p3: "populated_but rid s3" and w3: "well_keyed s3"
        using c2 p2 w2
        by (simp_all add: s3_def consistent_leaveRoom populated_but_leaveRoom well_keyed_leaveRoom)
      have r3: "rooms s3 rid \<noteq> None"
        using r2 by (auto simp add: s3_def rooms_leaveRoom split: option.splits)
      have "(conns s3 p = None) = (conns s p = None)"
        by (simp add: s3_def s2_def s1_def)
      with p have n3: "conns s3 p \<noteq> None"
        by simp
      have pr3: "peer_room s3 p = None \<or> peer_room s3 p = Some rid"
      proof (cases "peer_room s2 p")
        case None
        then show ?thesis by (simp add: s3_def falsy_def)
      next
        case (Some old)
        from consistentD1 [OF c2 Some] w2 have "old \<noteq> []" "rooms s2 old \<noteq> None"
          by (auto simp add: well_keyed_def)
        with Some show ?thesis
          by (auto simp add: s3_def falsy_def peer_room_leaveRoom str_or_empty_def)
      qed
      have c5: "consistent s5"
        unfolding s5_def using c3 pr3 n3 r3 by (rule consistent_enter) (simp add: f_def)
      have p5: "populated s5"
        unfolding s5_def using p3 by (rule populated_enter)
      have w5: "well_keyed s5"
        unfolding s5_def using w3 by (rule well_keyed_enter)
      have "consistent (snd (joinRoom p m s)) = consistent s5"
        "populated (snd (joinRoom p m s)) = populated s5"
        "well_keyed (snd (joinRoom p m s)) = well_keyed s5"
        using rid acc
        by (auto simp add: joinRoom_def Let_def rid_def [symmetric] kh_def [symmetric] g l
            s2_def [symmetric] f_def [symmetric] s5_def [symmetric] send_deliver
            split: option.splits)
      with c5 p5 w5 show ?thesis by simp
    qed
  qed
qed

section \<open>The invariants in every reachable state\<close>

lemma relaySignal_obs [simp]:
  "rooms (snd (relaySignal p m s)) = rooms s"
  "peer_room (snd (relaySignal p m s)) = peer_room s"
  "is_open (snd (relaySignal p m s)) = is_open s"
  "conns (snd (relaySignal p m s)) x = None \<longleftrightarrow> conns s x = None"
  by (simp_all add: relaySignal_def send_deliver split: option.splits)

lemma onMessage_invariants:
  assumes "consistent s" and "populated s" and "well_keyed s" and "conns s p \<noteq> None"
  shows "consistent (snd (onMessage p m s)) \<and> populated (snd (onMessage p m s))
         \<and> well_keyed (snd (onMessage p m s))"
proof -
  have "consistent (snd (relaySignal p m s)) = consistent s"
    by (rule consistent_cong) simp_all
  moreover have "populated (snd (relaySignal p m s)) = populated s"
    by (rule populated_cong) simp
  moreover have "well_keyed (snd (relaySignal p m s)) = well_keyed s"
    by (rule well_keyed_cong) simp_all
  ultimately show ?thesis
    using assms joinRoom_invariants [OF assms, of m]
    by (simp add: onMessage_def consistent_leaveRoom populated_leaveRoom well_keyed_leaveRoom)
qed

lemma on_message_event_invariants:
  assumes "consistent s" and "populated s" and "well_keyed s" and "conns s p \<noteq> None"
  shows "consistent (snd (on_message_event p f s)) \<and> populated (snd (on_message_event p f s))
         \<and> well_keyed (snd (on_message_event p f s))"
proof (cases f)
  case (Parsed m)
  obtain out s' where o: "onMessage p m s = (out, s')"
    by (cases "onMessage p m s")
  with onMessage_invariants [OF assms, of m]
  have "consistent s' \<and> populated s' \<and> well_keyed s'"
    by simp
  with o Parsed show ?thesis
    by (cases out) (simp_all add: on_message_event_def)
qed (use assms in \<open>simp_all add: on_message_event_def\<close>)

lemma fetch_invariants:
  assumes "consistent s" and "populated s" and "well_keyed s"
    and "\<not> upgrade \<or> (uid \<noteq> [] \<and> conns s uid = None)"
  shows "consistent (fetch upgrade uid nm s) \<and> populated (fetch upgrade uid nm s)
         \<and> well_keyed (fetch upgrade uid nm s)"
proof (cases upgrade)
  case False
  with assms show ?thesis by (simp add: fetch_def)
next
  case True
  with assms have uid: "uid \<noteq> []" "conns s uid = None"
    by simp_all
  let ?s = "fetch upgrade uid nm s"
  have r: "rooms ?s = rooms s"
    by (simp add: fetch_def)
  have pr: "peer_room ?s = peer_room s"
    using uid True by (auto simp add: fetch_def peer_room_def fun_eq_iff)
  have "consistent ?s"
    using assms(1) consistent_cong [OF r pr] by simp
  moreover have "populated ?s"
    using assms(2) populated_cong [OF r] by simp
  moreover have "well_keyed ?s"
    using assms(3) uid True by (simp add: well_keyed_def fetch_def)
  ultimately show ?thesis by simp
qed

lemma stale_invariants:
  assumes "consistent s" and "populated s" and "well_keyed s"
  shows "consistent (upd_peer p (\<lambda>c. c\<lparr>sock_open := False\<rparr>) s)
         \<and> populated (upd_peer p (\<lambda>c. c\<lparr>sock_open := False\<rparr>) s)
         \<and> well_keyed (upd_peer p (\<lambda>c. c\<lparr>sock_open := False\<rparr>) s)"
proof -
  let ?s = "upd_peer p (\<lambda>c. c\<lparr>sock_open := False\<rparr>) s"
  have pr: "peer_room ?s = peer_room s"
    by (rule ext) (simp add: upd_peer_def peer_room_def split: option.splits)
  have r: "rooms ?s = rooms s"
    by simp
  have n: "(conns ?s [] = None) = (conns s [] = None)"
    by simp
  have "consistent ?s"
    using assms(1) consistent_cong [OF r pr] by simp
  moreover have "populated ?s"
    using assms(2) populated_cong [OF r] by simp
  moreover have "well_keyed ?s"
    using assms(3) well_keyed_cong [OF r n] by simp
  ultimately show ?thesis by simp
qed

lemma step_invariants:
  assumes "consistent s" and "populated s" and "well_keyed s" and "enabled e s"
  shows "consistent (step e s) \<and> populated (step e s) \<and> well_keyed (step e s)"
proof (cases e)
  case (Fetch upgrade uid nm)
  with assms show ?thesis
    using fetch_invariants [of s upgrade uid nm] by (simp add: step_def enabled_def)
next
  case (Message p f)
  with assms show ?thesis
    using on_message_event_invariants [of s p f] by (simp add: step_def enabled_def)
next
  case (Close p)
  with assms show ?thesis
    by (simp add: step_def consistent_leaveRoom populated_leaveRoom well_keyed_leaveRoom)
next
  case (SockError p)
  with assms show ?thesis
    by (simp add: step_def consistent_leaveRoom populated_leaveRoom well_keyed_leaveRoom)
next
  case (Stale p)
  with assms show ?thesis
    using stale_invariants [of s p] by (simp add: step_def)
qed

lemma init_invariants: "consistent init \<and> populated init \<and> well_keyed init"
  by (simp add: consistent_def populated_def well_keyed_def init_def peer_room_def)

lemma reachable_invariants:
  "reachable s \<Longrightarrow> consistent s \<and> populated s \<and> well_keyed s"
proof (induction rule: reachable.induct)
  case reachable_init
  show ?case by (rule init_invariants)
next
  case (reachable_step s e)
  then show ?case
    using step_invariants [of s e] by blast
qed

section \<open>The example runs, evaluated\<close>

lemmas handler_defs =
  step_def enabled_def on_message_event_def onMessage_def joinRoom_def relaySignal_def
  leaveRoom_def broadcast_def getOrCreateRoom_def send_def upd_peer_def upd_room_def
  fetch_def init_def str_or_empty_def falsy_def asPeerInfo_def
  peers_set_def
  invalid_json_def peer_room_def received_def is_open_def members_def Let_def

lemmas example_defs = lobby_def lobby_events_def join_msg_def signal_msg_def fox_def

text \<open>The room ids of the examples, plain and padded with Unicode white space.\<close>

lemma trim_examples [simp]:
  "trim (js ''R1'') = js ''R1''"
  "trim (js ''R2'') = js ''R2''"
  "trim (js ''R'') = js ''R''"
  "trim padded_R1 = js ''R1''"
  "trim padded_R2 = js ''R2''"
  "trim [0x00A0, 0x0009, 0x3000] = []"
  by (simp_all add: trim_def is_space_def js_def padded_R1_def padded_R2_def)

lemma padded_distinct [simp]:
  "padded_R1 \<noteq> js ''R1''" "padded_R1 \<noteq> js ''R2''" "padded_R2 \<noteq> js ''R1''" "padded_R2 \<noteq> js ''R2''"
  by (simp_all add: js_def padded_R1_def padded_R2_def)

lemma reachable_run: "reachable s \<Longrightarrow> valid_run es s \<Longrightarrow> reachable (run es s)"
  by (induction es arbitrary: s) (auto intro: reachable_step)

lemma valid_lobby: "valid_run lobby_events init"
  by (simp add: handler_defs example_defs)

lemma reachable_lobby: "reachable lobby"
  unfolding lobby_def by (rule reachable_run [OF reachable_init valid_lobby])

lemma lobby_eq:
  "lobby =
     \<lparr>rooms = [(js ''R1'') \<mapsto> \<lparr>keyHash = ''k1'', peers = [''A'', ''C'']\<rparr>,
               (js ''R2'') \<mapsto> \<lparr>keyHash = ''k2'', peers = [''B'']\<rparr>],
      conns =
        [''C'' \<mapsto> \<lparr>roomId = Some (js ''R1''), roomKeyHash = ''k1'', name = fox,
                    rtcSupported = True, sock_open = True,
                    outbox = [Welcome ''C'' (js ''R1'') [PeerInfo ''A'' True fox]
                                ''Swift-Fox'' ''Swift-Fox Mobile'']\<rparr>,
         ''A'' \<mapsto> \<lparr>roomId = Some (js ''R1''), roomKeyHash = ''k1'', name = fox,
                    rtcSupported = True, sock_open = True,
                    outbox = [Welcome ''A'' (js ''R1'') [] ''Swift-Fox'' ''Swift-Fox Mobile'',
                              PeerJoined (PeerInfo ''C'' True fox)]\<rparr>,
         ''B'' \<mapsto> \<lparr>roomId = Some (js ''R2''), roomKeyHash = ''k2'', name = fox,
                    rtcSupported = True, sock_open = True,
                    outbox = [Welcome ''B'' (js ''R2'') [] ''Swift-Fox'' ''Swift-Fox Mobile'']\<rparr>]\<rparr>"
  by (simp add: handler_defs example_defs)

lemmas lobby_simps = lobby_eq join_msg_def signal_msg_def fox_def

lemma keyless_eq:
  "keyless =
     \<lparr>rooms = [(js ''R'') \<mapsto> \<lparr>keyHash = [], peers = [''A'']\<rparr>],
      conns =
        [''B'' \<mapsto> \<lparr>roomId = None, roomKeyHash = [], name = fox, rtcSupported = True,
                    sock_open = True, outbox = []\<rparr>,
         ''A'' \<mapsto> \<lparr>roomId = Some (js ''R''), roomKeyHash = [], name = fox, rtcSupported = True,
                    sock_open = True,
                    outbox = [Welcome ''A'' (js ''R'') [] ''Swift-Fox'' ''Swift-Fox Mobile'']\<rparr>]\<rparr>"
  by (simp add: handler_defs keyless_def keyless_events_def join_msg_def fox_def)

lemma keyless_peer_room: "peer_room keyless ''B'' = None"
  by (simp add: keyless_eq peer_room_def)

text \<open>
  A join to the padded id enters the room of the trimmed id, and a wrong key for it is
  checked against that room's secret; no room is registered under the padded id.
\<close>

lemma padded_join_example:
  "members (step (Message ''B'' (Parsed (join_msg padded_R1 ''k1''))) lobby) (js ''R1'')
     = [''A'', ''C'', ''B'']"
  "rooms (step (Message ''B'' (Parsed (join_msg padded_R1 ''k1''))) lobby) padded_R1 = None"
  "rooms (step (Message ''B'' (Parsed (join_msg padded_R1 ''WRONG''))) lobby) = rooms lobby"
  "received (step (Message ''B'' (Parsed (join_msg padded_R1 ''WRONG''))) lobby) ''B''
     = received lobby ''B'' @ [RoomKeyMismatch]"
  by (simp_all add: handler_defs lobby_simps)

lemma lobby_rooms:
  "rooms lobby (js ''R1'') = Some \<lparr>keyHash = ''k1'', peers = [''A'', ''C'']\<rparr>"
  "rooms lobby (js ''R2'') = Some \<lparr>keyHash = ''k2'', peers = [''B'']\<rparr>"
  by (simp_all add: lobby_eq)

lemma lobby_peer_room:
  "peer_room lobby ''A'' = Some (js ''R1'')"
  "peer_room lobby ''B'' = Some (js ''R2'')"
  "peer_room lobby ''C'' = Some (js ''R1'')"
  by (simp_all add: lobby_eq peer_room_def)

section \<open>Membership and population in reachable states\<close>

text \<open>
  C2. In every reachable state a peer's \<^verbatim>\<open>roomId\<close> is \<open>r\<close> exactly when the peer is in
  the member map of the room registered under \<open>r\<close>: a peer that believes it is in a room
  is listed there, and every listed member believes it is in that room.
\<close>

theorem membership_consistent:
  "reachable s \<Longrightarrow> (peer_room s p = Some r) = (p \<in> set (members s r))"
proof -
  assume "reachable s"
  then have c: "consistent s"
    using reachable_invariants by blast
  show ?thesis
  proof
    assume "peer_room s p = Some r"
    with c show "p \<in> set (members s r)"
      by (simp add: consistent_def)
  next
    assume "p \<in> set (members s r)"
    then obtain rm where "rooms s r = Some rm" "p \<in> set (peers rm)"
      by (auto simp add: mem_members)
    with c show "peer_room s p = Some r"
      by (rule consistentD2)
  qed
qed

theorem membership_consistent_witness:
  "reachable lobby \<and> peer_room lobby ''C'' = Some (js ''R1'') \<and> ''C'' \<in> set (members lobby (js ''R1''))
   \<and> peer_room lobby ''B'' \<noteq> Some (js ''R1'') \<and> ''B'' \<notin> set (members lobby (js ''R1''))"
  using membership_consistent [OF reachable_lobby, of "''C''" "(js ''R1'')"]
    membership_consistent [OF reachable_lobby, of "''B''" "(js ''R1'')"]
    reachable_lobby lobby_peer_room
  by simp

text \<open>
  C4. In every reachable state, that is after any number of completed operations, every
  room in the registry has at least one member.
\<close>

theorem rooms_never_empty:
  "reachable s \<Longrightarrow> rooms s r = Some rm \<Longrightarrow> peers rm \<noteq> []"
  using reachable_invariants [of s] by (simp add: populated_def)

theorem rooms_never_empty_witness:
  "reachable lobby \<and> rooms lobby (js ''R2'') = Some \<lparr>keyHash = ''k2'', peers = [''B'']\<rparr>
   \<and> peers \<lparr>keyHash = ''k2'', peers = [''B'']\<rparr> \<noteq> []"
  using rooms_never_empty [OF reachable_lobby lobby_rooms(2)] reachable_lobby lobby_rooms(2)
  by simp

section \<open>What a join does\<close>

lemma received_deliver_app:
  "received (deliver f s) x = received s x @ (if conns s x = None then [] else f x)"
  by (simp add: deliver_def received_def split: option.splits)

lemma received_broadcast_loop_other:
  "x \<notin> set qs \<Longrightarrow> received (broadcast_loop qs pl ex s) x = received s x"
  by (induction qs arbitrary: s) (auto simp add: send_deliver received_deliver_app)

lemma received_broadcast_loop_except:
  "p \<noteq> [] \<Longrightarrow> received (broadcast_loop qs pl (Some p) s) p = received s p"
  by (induction qs arbitrary: s) (auto simp add: send_deliver received_deliver_app falsy_def)

lemma info_deliver [simp]: "info (deliver f s) = info s"
  by (rule ext) (simp add: info_def deliver_def asPeerInfo_def split: option.splits)

lemma info_broadcast_loop [simp]: "info (broadcast_loop qs pl ex s) = info s"
  by (induction qs arbitrary: s) (simp_all add: send_deliver)

lemma info_rooms_update [simp]: "info (s\<lparr>rooms := R\<rparr>) = info s"
  by (rule ext) (simp add: info_def)

lemma info_upd_room [simp]: "info (upd_room r f s) = info s"
  by (rule ext) (simp add: info_def)

lemma info_getOrCreateRoom [simp]: "info (snd (getOrCreateRoom rid kh s)) = info s"
  by (rule ext) (simp add: info_def)

lemma info_upd_peer_other: "q \<noteq> p \<Longrightarrow> info (upd_peer p f s) q = info s q"
  by (simp add: info_def upd_peer_def split: option.splits)

lemma info_upd_peer_kept:
  "(\<And>c. rtcSupported (f c) = rtcSupported c \<and> name (f c) = name c) \<Longrightarrow>
   info (upd_peer p f s) = info s"
  by (rule ext) (simp add: info_def upd_peer_def asPeerInfo_def split: option.splits)

lemma received_upd_peer_kept:
  "(\<And>c. outbox (f c) = outbox c) \<Longrightarrow> received (upd_peer p f s) = received s"
  by (rule ext) (simp add: received_def upd_peer_def split: option.splits)

lemma is_open_upd_peer_kept:
  "(\<And>c. sock_open (f c) = sock_open c) \<Longrightarrow> is_open (upd_peer p f s) = is_open s"
  by (rule ext) (simp add: is_open_def upd_peer_def split: option.splits)

lemma info_leaveRoom [simp]: "info (snd (leaveRoom p s)) = info s"
  by (simp add: leaveRoom_def Let_def broadcast_def info_upd_peer_kept split: option.splits)

lemma is_open_leaveRoom [simp]: "is_open (snd (leaveRoom p s)) = is_open s"
  by (simp add: leaveRoom_def Let_def broadcast_def is_open_upd_peer_kept split: option.splits)

lemma received_leaveRoom_self: "received (snd (leaveRoom p s)) p = received s p"
  by (simp add: leaveRoom_def Let_def broadcast_def received_upd_peer_kept
      received_broadcast_loop_other split: option.splits)

lemma roster_infos:
  "map (\<lambda>(q, d). asPeerInfo q d) (filter (\<lambda>(q, d). q \<noteq> p) (room_values s qs))
     = List.map_filter (info s) (filter (\<lambda>q. q \<noteq> p) qs)"
  by (induction qs) (auto simp add: info_def map_filter_simps split: option.splits)

lemma map_filter_cong_set:
  "(\<And>x. x \<in> set xs \<Longrightarrow> f x = g x) \<Longrightarrow> List.map_filter f xs = List.map_filter g xs"
  by (induction xs) (auto simp add: map_filter_simps split: option.splits)

lemma map_Some_map_filter:
  "(\<And>x. x \<in> set xs \<Longrightarrow> f x \<noteq> None) \<Longrightarrow> map Some (List.map_filter f xs) = map f xs"
  by (induction xs) (auto simp add: map_filter_simps split: option.splits)

lemma joinRoom_rejected:
  assumes "trim (str_or_empty (msg_roomId m)) = rid" and "rid \<noteq> []"
    and "str_or_empty (msg_roomKeyHash m) = kh" and "\<not> admits s rid kh"
  shows "joinRoom p m s = send p RoomKeyMismatch s"
proof -
  from assms(4) obtain rm where rm: "rooms s rid = Some rm" "keyHash rm \<noteq> []" "kh \<noteq> keyHash rm"
    by (auto simp add: admits_def split: option.splits)
  then have "getOrCreateRoom rid kh s = (rm, s)"
    by (simp add: getOrCreateRoom_def)
  with rm assms(1,2,3) show ?thesis
    by (simp add: joinRoom_def Let_def)
qed

lemma rooms_leaveRoom_other:
  "peer_room s p \<noteq> Some r \<Longrightarrow> rooms (snd (leaveRoom p s)) r = rooms s r"
  by (auto simp add: rooms_leaveRoom split: option.splits)

lemma joinRoom_accepted:
  assumes rid: "trim (str_or_empty (msg_roomId m)) = rid" "rid \<noteq> []"
    and kh: "str_or_empty (msg_roomKeyHash m) = kh" and adm: "admits s rid kh"
    and c: "conns s p = Some c"
  shows "rooms (snd (joinRoom p m s)) rid = Some \<lparr>keyHash = kh, peers = peers_set p (members s rid)\<rparr>"
    and "peer_room (snd (joinRoom p m s)) p = Some rid"
    and "fst (joinRoom p m s) = (if is_open s p then Normal else Thrown)"
    and "p \<noteq> [] \<Longrightarrow> received (snd (joinRoom p m s)) p =
           received s p @ (if is_open s p
             then [Welcome p rid (List.map_filter (info s) (filter (\<lambda>q. q \<noteq> p) (members s rid)))
                     (displayName (name c)) (deviceName (name c))]
             else [])"
proof -
  define rm where "rm = fst (getOrCreateRoom rid kh s)"
  define s1 where "s1 = snd (getOrCreateRoom rid kh s)"
  define s2 where "s2 = (if keyHash rm = [] \<and> kh \<noteq> []
                         then upd_room rid (\<lambda>r. r\<lparr>keyHash := kh\<rparr>) s1 else s1)"
  define s3 where "s3 = (if \<not> falsy (peer_room s2 p) \<and> peer_room s2 p \<noteq> Some rid
                         then snd (leaveRoom p s2) else s2)"
  define f where "f = (\<lambda>c :: peer. c\<lparr>roomId := Some rid, roomKeyHash := kh,
                                     rtcSupported := (msg_rtcSupported m \<noteq> Some False)\<rparr>)"
  define s5 where "s5 = upd_room rid (\<lambda>r. r\<lparr>peers :=
                          peers_set p (peers r)\<rparr>) (upd_peer p f s3)"
  define rm5 where "rm5 = \<lparr>keyHash = kh, peers = peers_set p (members s rid)\<rparr>"
  define c5 where "c5 = f c\<lparr>outbox := received s p\<rparr>"
  define roster where "roster = List.map_filter (info s) (filter (\<lambda>q. q \<noteq> p) (members s rid))"
  have g: "getOrCreateRoom rid kh s = (rm, s1)"
    by (simp add: rm_def s1_def)
  have l: "(if \<not> falsy (peer_room s2 p) \<and> peer_room s2 p \<noteq> Some rid
            then leaveRoom p s2 else (Normal, s2)) = (Normal, s3)"
    by (simp add: s3_def prod_eq_iff)
  have acc: "\<not> (keyHash rm \<noteq> [] \<and> kh \<noteq> keyHash rm)"
    using adm by (auto simp add: rm_def fst_getOrCreateRoom admits_def split: option.splits)
  have rm: "keyHash rm = (case rooms s rid of None \<Rightarrow> kh | Some r \<Rightarrow> keyHash r)"
    "peers rm = members s rid"
    by (simp_all add: rm_def fst_getOrCreateRoom members_def split: option.splits)
  have r1: "rooms s1 rid = Some rm"
    by (simp add: s1_def rm_def)
  have r2: "rooms s2 rid = Some (rm\<lparr>keyHash := kh\<rparr>)"
    using r1 acc by (auto simp add: s2_def rooms_upd_room)
  have r3: "rooms s3 rid = Some (rm\<lparr>keyHash := kh\<rparr>)"
    using r2 by (simp add: s3_def rooms_leaveRoom_other)
  have r5: "rooms s5 rid = Some rm5"
    using r3 rm(2) by (simp add: s5_def rooms_upd_room rm5_def peers_set_def)
  have i3: "info s3 = info s"
    by (simp add: s3_def s2_def s1_def)
  have o3: "is_open s3 = is_open s"
    by (simp add: s3_def s2_def s1_def)
  have rc3: "received s3 p = received s p"
    by (simp add: s3_def s2_def s1_def received_leaveRoom_self)
  have "(conns s3 p = None) = (conns s p = None)"
    by (simp add: s3_def s2_def s1_def)
  with c obtain c3 where c3: "conns s3 p = Some c3"
    by auto
  from i3 c c3 have nm3: "name c3 = name c"
    by (auto simp add: info_def asPeerInfo_def fun_eq_iff split: option.splits dest!: spec [of _ p])
  from o3 c3 have op3: "sock_open c3 = is_open s p"
    by (auto simp add: is_open_def fun_eq_iff split: option.splits dest!: spec [of _ p])
  from rc3 c3 have ob3: "outbox c3 = received s p"
    by (simp add: received_def)
  have cn5: "conns s5 p = Some (f c3)"
    using c3 by (simp add: s5_def upd_peer_def)
  have i5: "\<And>q. q \<noteq> p \<Longrightarrow> info s5 q = info s q"
    by (simp add: s5_def info_upd_peer_other i3)
  have "map (\<lambda>(q, d). asPeerInfo q d) (filter (\<lambda>(q, d). q \<noteq> p) (room_values s5 (peers rm5)))
        = List.map_filter (info s5) (filter (\<lambda>q. q \<noteq> p) (members s rid))"
    by (simp add: roster_infos rm5_def peers_set_def)
  also have "\<dots> = roster"
    unfolding roster_def by (rule map_filter_cong_set) (simp add: i5)
  finally have ros: "map (\<lambda>(q, d). asPeerInfo q d)
        (filter (\<lambda>(q, d). q \<noteq> p) (room_values s5 (peers rm5))) = roster" .
  have nm5: "name (f c3) = name c"
    by (simp add: f_def nm3)
  have j: "joinRoom p m s =
      (case send p (Welcome p rid roster (displayName (name c)) (deviceName (name c))) s5 of
         (Thrown, s6) \<Rightarrow> (Thrown, s6)
       | (Normal, s6) \<Rightarrow> broadcast rm5 (PeerJoined (asPeerInfo p (f c3))) (Some p) s6)"
    using rid(2) acc
    by (auto simp add: joinRoom_def Let_def rid(1) kh g l s2_def [symmetric] f_def [symmetric]
        s5_def [symmetric] r5 cn5 ros nm5)
  have open5: "is_open s5 = is_open s"
    by (simp add: s5_def is_open_upd_peer_kept f_def o3)
  have rc5: "received s5 p = received s p"
    by (simp add: s5_def received_upd_peer_kept f_def rc3)
  have pr5: "peer_room s5 p = Some rid"
    using c3 by (simp add: s5_def peer_room_upd_peer f_def)
  show "rooms (snd (joinRoom p m s)) rid = Some \<lparr>keyHash = kh, peers = peers_set p (members s rid)\<rparr>"
    using r5 by (simp add: j send_deliver rm5_def)
  show "peer_room (snd (joinRoom p m s)) p = Some rid"
    using pr5 by (simp add: j send_deliver)
  show "fst (joinRoom p m s) = (if is_open s p then Normal else Thrown)"
    by (simp add: j send_deliver open5)
  show "received (snd (joinRoom p m s)) p =
           received s p @ (if is_open s p
             then [Welcome p rid (List.map_filter (info s) (filter (\<lambda>q. q \<noteq> p) (members s rid)))
                     (displayName (name c)) (deviceName (name c))]
             else [])" if "p \<noteq> []"
    using that cn5
    by (simp add: j send_deliver open5 broadcast_def received_broadcast_loop_except
        received_deliver_app rc5 roster_def)
qed

section \<open>The leave sequence in full\<close>

lemma deliver_rooms_update: "deliver f (s\<lparr>rooms := R\<rparr>) = (deliver f s)\<lparr>rooms := R\<rparr>"
  by (simp add: deliver_def)

lemma leaveRoom_joined:
  assumes "peer_room s p = Some rid" and "rid \<noteq> []" and "rooms s rid = Some rm"
    and "distinct (peers rm)"
  shows "leaveRoom p s =
    (Normal, upd_peer p (\<lambda>c. c\<lparr>roomId := None\<rparr>)
       ((deliver (\<lambda>x. if x \<in> set (peers rm) \<and> x \<noteq> p \<and> is_open s x then [PeerLeft p] else []) s)
          \<lparr>rooms := (rooms s)(rid := (if removeAll p (peers rm) = [] then None
                        else Some (rm\<lparr>peers := removeAll p (peers rm)\<rparr>)))\<rparr>))"
proof -
  have d: "distinct (removeAll p (peers rm))"
    using assms(4) by (simp add: distinct_removeAll)
  have f: "(\<lambda>x. if x \<in> set (removeAll p (peers rm)) \<and> \<not> (\<not> falsy (Some p) \<and> Some x = Some p) \<and> is_open s x
                then [PeerLeft p] else [])
         = (\<lambda>x. if x \<in> set (peers rm) \<and> x \<noteq> p \<and> is_open s x then [PeerLeft p] else [])"
    by (auto simp add: fun_eq_iff)
  have "broadcast_loop (removeAll p (peers rm)) (PeerLeft p) (Some p)
          (s\<lparr>rooms := (rooms s)(rid \<mapsto> rm\<lparr>peers := removeAll p (peers rm)\<rparr>)\<rparr>)
        = (deliver (\<lambda>x. if x \<in> set (peers rm) \<and> x \<noteq> p \<and> is_open s x then [PeerLeft p] else []) s)
            \<lparr>rooms := (rooms s)(rid \<mapsto> rm\<lparr>peers := removeAll p (peers rm)\<rparr>)\<rparr>"
    unfolding broadcast_loop_deliver [OF d] deliver_rooms_update rooms_update_obs f ..
  moreover have "removeAll p (peers rm) = [] \<Longrightarrow>
      deliver (\<lambda>x. if x \<in> set (peers rm) \<and> x \<noteq> p \<and> is_open s x then [PeerLeft p] else []) s = s"
    by (rule deliver_nothing) (auto simp add: removeAll_Nil_iff)
  ultimately show ?thesis
    using assms(1,2,3) by (auto simp add: leaveRoom_def Let_def broadcast_def)
qed

lemma received_leaveRoom_joined:
  assumes "peer_room s p = Some rid" and "rid \<noteq> []" and "rooms s rid = Some rm"
    and "distinct (peers rm)"
  shows "received (snd (leaveRoom p s)) q =
           received s q @ (if q \<in> set (peers rm) \<and> q \<noteq> p \<and> is_open s q then [PeerLeft p] else [])"
proof -
  have "is_open s q \<Longrightarrow> conns s q \<noteq> None"
    by (auto simp add: is_open_def split: option.splits)
  then show ?thesis
    by (auto simp add: leaveRoom_joined [OF assms] received_upd_peer_kept received_deliver_app)
qed

lemma leaveRoom_twice: "leaveRoom p (snd (leaveRoom p s)) = (Normal, snd (leaveRoom p s))"
proof (cases "falsy (peer_room s p) \<or> rooms s (str_or_empty (peer_room s p)) = None")
  case True
  then show ?thesis
    by (simp add: leaveRoom_idle)
next
  case False
  then have "peer_room (snd (leaveRoom p s)) p = None"
    by (simp add: peer_room_leaveRoom)
  then show ?thesis
    by (simp add: leaveRoom_idle falsy_def)
qed

text \<open>
  C5. The leave sequence does nothing for a peer whose \<^verbatim>\<open>roomId\<close> is \<^verbatim>\<open>null\<close>. For a peer
  \<open>p\<close> joined to room \<open>rid\<close> it returns normally, takes \<open>p\<close> out of the member list, removes
  the room from the registry exactly when no member is left and leaves every other room
  alone, sets \<open>p\<close>'s \<^verbatim>\<open>roomId\<close> to \<^verbatim>\<open>null\<close>, and appends exactly one \<^verbatim>\<open>peer-left\<close>
  notice for \<open>p\<close> to what each remaining member with an open socket has received, and
  nothing to anyone else (a send to a stale socket fails silently). Running it a second
  time changes nothing. The member list, being the keys of a \<^verbatim>\<open>Map\<close>, has no duplicates.
\<close>

theorem leave_sequence:
  "(peer_room s p = None \<longrightarrow> leaveRoom p s = (Normal, s)) \<and>
   (peer_room s p = Some rid \<and> rid \<noteq> [] \<and> rooms s rid = Some rm \<and> distinct (peers rm) \<longrightarrow>
      fst (leaveRoom p s) = Normal \<and>
      members (snd (leaveRoom p s)) rid = removeAll p (peers rm) \<and>
      (rooms (snd (leaveRoom p s)) rid = None \<longleftrightarrow> removeAll p (peers rm) = []) \<and>
      (\<forall>r. r \<noteq> rid \<longrightarrow> rooms (snd (leaveRoom p s)) r = rooms s r) \<and>
      peer_room (snd (leaveRoom p s)) = (peer_room s)(p := None) \<and>
      (\<forall>q. received (snd (leaveRoom p s)) q =
             received s q @ (if q \<in> set (peers rm) \<and> q \<noteq> p \<and> is_open s q
                             then [PeerLeft p] else []))) \<and>
   leaveRoom p (snd (leaveRoom p s)) = (Normal, snd (leaveRoom p s))"
proof (intro conjI impI)
  assume "peer_room s p = None"
  then show "leaveRoom p s = (Normal, s)"
    by (simp add: leaveRoom_idle falsy_def)
next
  show "leaveRoom p (snd (leaveRoom p s)) = (Normal, snd (leaveRoom p s))"
    by (rule leaveRoom_twice)
next
  assume a: "peer_room s p = Some rid \<and> rid \<noteq> [] \<and> rooms s rid = Some rm \<and> distinct (peers rm)"
  show "fst (leaveRoom p s) = Normal"
    by simp
  show "members (snd (leaveRoom p s)) rid = removeAll p (peers rm)"
    using a by (simp add: members_def rooms_leaveRoom)
  show "(rooms (snd (leaveRoom p s)) rid = None) = (removeAll p (peers rm) = [])"
    using a by (simp add: rooms_leaveRoom)
  show "\<forall>r. r \<noteq> rid \<longrightarrow> rooms (snd (leaveRoom p s)) r = rooms s r"
    using a by (simp add: rooms_leaveRoom)
  show "peer_room (snd (leaveRoom p s)) = (peer_room s)(p := None)"
    using a by (auto simp add: fun_eq_iff peer_room_leaveRoom falsy_def str_or_empty_def)
  show "\<forall>q. received (snd (leaveRoom p s)) q =
             received s q @ (if q \<in> set (peers rm) \<and> q \<noteq> p \<and> is_open s q
                             then [PeerLeft p] else [])"
    using a by (simp add: received_leaveRoom_joined)
qed

theorem leave_sequence_witness:
  "peer_room keyless ''B'' = None \<and> leaveRoom ''B'' keyless = (Normal, keyless)
   \<and> peer_room lobby ''A'' = Some (js ''R1'') \<and> (js ''R1'') \<noteq> []
   \<and> rooms lobby (js ''R1'') = Some \<lparr>keyHash = ''k1'', peers = [''A'', ''C'']\<rparr>
   \<and> distinct [''A'', ''C'']
   \<and> fst (leaveRoom ''A'' lobby) = Normal
   \<and> members (snd (leaveRoom ''A'' lobby)) (js ''R1'') = [''C'']
   \<and> rooms (snd (leaveRoom ''A'' lobby)) (js ''R1'') \<noteq> None
   \<and> rooms (snd (leaveRoom ''A'' lobby)) (js ''R2'') = rooms lobby (js ''R2'')
   \<and> peer_room (snd (leaveRoom ''A'' lobby)) ''A'' = None
   \<and> received (snd (leaveRoom ''A'' lobby)) ''C'' = received lobby ''C'' @ [PeerLeft ''A'']
   \<and> received (snd (leaveRoom ''A'' lobby)) ''A'' = received lobby ''A''
   \<and> received (snd (leaveRoom ''A'' lobby)) ''B'' = received lobby ''B''
   \<and> leaveRoom ''A'' (snd (leaveRoom ''A'' lobby)) = (Normal, snd (leaveRoom ''A'' lobby))"
proof -
  have h: "peer_room lobby ''A'' = Some (js ''R1'') \<and> (js ''R1'') \<noteq> []
     \<and> rooms lobby (js ''R1'') = Some \<lparr>keyHash = ''k1'', peers = [''A'', ''C'']\<rparr>
     \<and> distinct (peers \<lparr>keyHash = ''k1'', peers = [''A'', ''C'']\<rparr>)"
    by (simp add: lobby_peer_room lobby_rooms)
  have o: "is_open lobby ''C''"
    by (simp add: lobby_eq is_open_def)
  from leave_sequence [of lobby "''A''" "(js ''R1'')" "\<lparr>keyHash = ''k1'', peers = [''A'', ''C'']\<rparr>"]
    leave_sequence [of keyless "''B''"] keyless_peer_room h o
  show ?thesis
    by simp
qed

section \<open>Broadcast\<close>

text \<open>
  C9. A broadcast returns normally whatever the sockets do. Every member of the room
  other than the excluded id whose socket accepts the send receives the payload exactly
  once, appended to what it had received; a member whose send fails, the excluded peer
  and every peer outside the room receive nothing, so no error reaches the peer that
  triggered the broadcast; rooms and memberships are untouched. The member list, being
  the keys of a \<^verbatim>\<open>Map\<close>, has no duplicates, and an excluded id is a peer's id, which is
  not the empty string.
\<close>

theorem broadcast_delivery:
  assumes "distinct (peers rm)" and "exceptId \<noteq> Some []"
  shows "fst (broadcast rm payload exceptId s) = Normal \<and>
         rooms (snd (broadcast rm payload exceptId s)) = rooms s \<and>
         peer_room (snd (broadcast rm payload exceptId s)) = peer_room s \<and>
         (\<forall>q. received (snd (broadcast rm payload exceptId s)) q =
                received s q @ (if q \<in> set (peers rm) \<and> Some q \<noteq> exceptId \<and> is_open s q
                                then [payload] else []))"
proof -
  have o: "\<And>q. conns s q = None \<Longrightarrow> is_open s q = False"
    by (simp add: is_open_def)
  have e: "\<And>q. (\<not> falsy exceptId \<and> Some q = exceptId) = (Some q = exceptId)"
    using assms(2) by (auto simp add: falsy_def)
  show ?thesis
    by (auto simp add: broadcast_def broadcast_loop_deliver [OF assms(1)] e
        received_deliver_app o)
qed

theorem broadcast_delivery_witness:
  "distinct [''A'', ''B'', ''C''] \<and> Some ''A'' \<noteq> Some []
   \<and> \<not> is_open (step (Stale ''B'') lobby) ''B''
   \<and> fst (broadcast \<lparr>keyHash = [], peers = [''A'', ''B'', ''C'']\<rparr> (PeerLeft ''Z'') (Some ''A'')
            (step (Stale ''B'') lobby)) = Normal
   \<and> received (snd (broadcast \<lparr>keyHash = [], peers = [''A'', ''B'', ''C'']\<rparr> (PeerLeft ''Z'')
            (Some ''A'') (step (Stale ''B'') lobby))) ''C''
        = received (step (Stale ''B'') lobby) ''C'' @ [PeerLeft ''Z'']
   \<and> received (snd (broadcast \<lparr>keyHash = [], peers = [''A'', ''B'', ''C'']\<rparr> (PeerLeft ''Z'')
            (Some ''A'') (step (Stale ''B'') lobby))) ''B''
        = received (step (Stale ''B'') lobby) ''B''
   \<and> received (snd (broadcast \<lparr>keyHash = [], peers = [''A'', ''B'', ''C'']\<rparr> (PeerLeft ''Z'')
            (Some ''A'') (step (Stale ''B'') lobby))) ''A''
        = received (step (Stale ''B'') lobby) ''A''"
proof -
  have o: "\<not> is_open (step (Stale ''B'') lobby) ''B''" "is_open (step (Stale ''B'') lobby) ''C''"
    by (simp_all add: step_def upd_peer_def is_open_def lobby_eq)
  have d: "distinct (peers \<lparr>keyHash = [], peers = [''A'', ''B'', ''C'']\<rparr>)"
    by simp
  from broadcast_delivery [OF d, of "Some ''A''" "PeerLeft ''Z''" "step (Stale ''B'') lobby"] o
  show ?thesis
    by simp
qed

section \<open>Relaying a signal\<close>

lemma relaySignal_delivers:
  assumes "peer_room s p = Some rid" and "rid \<noteq> []" and "rooms s rid = Some rm"
    and "msg_to m = Some t" and "t \<in> set (peers rm)"
  shows "relaySignal p m s = send t (Signal p (msg_sdp m) (msg_ice m)) s"
  using assms by (simp add: relaySignal_def)


lemma received_send:
  "received (snd (send t m s)) q = received s q @ (if q = t \<and> is_open s t then [m] else [])"
  by (auto simp add: send_deliver received_deliver_app is_open_def split: option.splits)




text \<open>
  C10. In a reachable state, a \<^verbatim>\<open>signal\<close> message from a joined peer \<open>p\<close> with an open
  socket whose target id is \<open>p\<close>'s own id is delivered to \<open>p\<close> itself, tagged with \<open>p\<close> as
  the sender: \<open>p\<close> is a member of its own room, and the relay looks the target up among
  all members.
\<close>

theorem signal_to_self:
  assumes "reachable s" and "peer_room s p = Some rid" and "is_open s p"
    and "msg_type m = Some ''signal''" and "msg_to m = Some p"
  shows "fst (on_message_event p (Parsed m) s) = Normal \<and>
         received (snd (on_message_event p (Parsed m) s)) p =
           received s p @ [Signal p (msg_sdp m) (msg_ice m)]"
proof -
  from assms(1) have c: "consistent s" and w: "well_keyed s"
    using reachable_invariants by blast+
  from consistentD1 [OF c assms(2)] obtain rm where rm: "rooms s rid = Some rm" "p \<in> set (peers rm)"
    by blast
  with w have "rid \<noteq> []"
    by (auto simp add: well_keyed_def)
  with rm assms(2,5) have "relaySignal p m s = send p (Signal p (msg_sdp m) (msg_ice m)) s"
    by (simp add: relaySignal_delivers)
  with assms(3,4) have e: "on_message_event p (Parsed m) s =
      (Normal, snd (send p (Signal p (msg_sdp m) (msg_ice m)) s))"
    by (simp add: on_message_event_def onMessage_def send_deliver)
  show ?thesis
    using assms(3) by (simp add: e received_send)
qed

theorem signal_to_self_witness:
  "reachable lobby \<and> peer_room lobby ''B'' = Some (js ''R2'') \<and> is_open lobby ''B''
   \<and> msg_type (signal_msg ''B'' JNull) = Some ''signal'' \<and> msg_to (signal_msg ''B'' JNull) = Some ''B''
   \<and> fst (on_message_event ''B'' (Parsed (signal_msg ''B'' JNull)) lobby) = Normal
   \<and> received (snd (on_message_event ''B'' (Parsed (signal_msg ''B'' JNull)) lobby)) ''B''
        = received lobby ''B'' @ [Signal ''B'' (Some JNull) None]"
proof -
  have o: "is_open lobby ''B''"
    by (simp add: lobby_eq is_open_def)
  have h: "msg_type (signal_msg ''B'' JNull) = Some ''signal''" "msg_to (signal_msg ''B'' JNull) = Some ''B''"
    "msg_sdp (signal_msg ''B'' JNull) = Some JNull" "msg_ice (signal_msg ''B'' JNull) = None"
    by (simp_all add: signal_msg_def)
  from signal_to_self [OF reachable_lobby lobby_peer_room(2) o h(1,2)] reachable_lobby
    lobby_peer_room(2) o h
  show ?thesis
    by simp
qed

section \<open>Frames that are not JSON\<close>

lemma fst_send: "fst (send t m s) = (if is_open s t then Normal else Thrown)"
  by (simp add: send_deliver)

lemma undecodable_frame:
  assumes "is_open s p"
  shows "fst (on_message_event p Undecodable s) = Normal"
    and "rooms (snd (on_message_event p Undecodable s)) = rooms s"
    and "peer_room (snd (on_message_event p Undecodable s)) = peer_room s"
    and "is_open (snd (on_message_event p Undecodable s)) = is_open s"
    and "received (snd (on_message_event p Undecodable s)) q =
           received s q @ (if q = p then [ErrorNotice ''Invalid JSON message''] else [])"
  using assms
  by (simp_all add: on_message_event_def fst_send received_send invalid_json_def)

text \<open>
  C8, at the failing input. \<open>A\<close> and \<open>C\<close> are in room \<open>R1\<close> and \<open>C\<close>'s socket has gone
  stale. \<open>A\<close> sends the well-formed message \<^verbatim>\<open>{type:'signal', to:'C', sdp:'offer'}\<close>:
  the send to \<open>C\<close> throws inside the \<^verbatim>\<open>try\<close> of the message listener, and \<open>A\<close> is
  answered with the notice \<^verbatim>\<open>Invalid JSON message\<close>. The JSON text \<^verbatim>\<open>null\<close>, which
  \<^verbatim>\<open>JSON.parse\<close> accepts, is answered with it as well.
\<close>

theorem error_notice_for_valid_message:
  "received (run [Stale ''C'', Message ''A'' (Parsed (signal_msg ''C'' (JStr ''offer'')))] lobby) ''A''
     = received lobby ''A'' @ [ErrorNotice ''Invalid JSON message'']
   \<and> received (run [Message ''A'' ParsedNull] lobby) ''A''
     = received lobby ''A'' @ [ErrorNotice ''Invalid JSON message'']"
  by (simp add: handler_defs lobby_simps)

section \<open>A rejected join\<close>




section \<open>The admission secret\<close>

lemma key_kept_refl: "key_kept s s"
  by (simp add: key_kept_def)

lemma key_kept_rooms: "rooms s' = rooms s \<Longrightarrow> key_kept s s'"
  by (simp add: key_kept_def)

lemma key_kept_trans:
  assumes "key_kept s s'" and "key_kept s' s''"
  shows "key_kept s s''"
  unfolding key_kept_def
proof (intro allI impI)
  fix r rm''
  assume "rooms s'' r = Some rm''"
  with assms(2) obtain rm' where 1: "rooms s' r = Some rm'"
      "keyHash rm' \<noteq> [] \<longrightarrow> keyHash rm'' = keyHash rm'"
    unfolding key_kept_def by blast
  with assms(1) obtain rm where 2: "rooms s r = Some rm"
      "keyHash rm \<noteq> [] \<longrightarrow> keyHash rm' = keyHash rm"
    unfolding key_kept_def by blast
  from 1 2 show "\<exists>rm. rooms s r = Some rm \<and> (keyHash rm \<noteq> [] \<longrightarrow> keyHash rm'' = keyHash rm)"
    by auto
qed

lemma key_keptD:
  assumes "key_kept s s'" and "rooms s r = Some rm" and "keyHash rm \<noteq> []"
    and "rooms s' r = Some rm'"
  shows "keyHash rm' = keyHash rm"
proof -
  from assms(1,4) obtain rm0 where "rooms s r = Some rm0"
      "keyHash rm0 \<noteq> [] \<longrightarrow> keyHash rm' = keyHash rm0"
    unfolding key_kept_def by blast
  with assms(2,3) show ?thesis
    by simp
qed

lemma key_kept_leaveRoom: "key_kept s (snd (leaveRoom p s))"
  by (auto simp add: key_kept_def rooms_leaveRoom split: option.splits if_splits)

lemma key_kept_upd_room:
  "(\<And>rm. keyHash rm \<noteq> [] \<Longrightarrow> keyHash (f rm) = keyHash rm) \<Longrightarrow> key_kept s (upd_room rid f s)"
  by (auto simp add: key_kept_def rooms_upd_room split: option.splits if_splits)

lemma key_kept_enter:
  "key_kept s (upd_room rid (\<lambda>r. r\<lparr>peers :=
     peers_set p (peers r)\<rparr>) (upd_peer p f s))"
proof -
  have "key_kept s (upd_peer p f s)"
    by (simp add: key_kept_rooms)
  moreover have "key_kept (upd_peer p f s) (upd_room rid (\<lambda>r. r\<lparr>peers :=
           peers_set p (peers r)\<rparr>) (upd_peer p f s))"
    by (rule key_kept_upd_room) simp
  ultimately show ?thesis
    by (rule key_kept_trans)
qed

lemma keyHash_joinRoom:
  assumes "rooms s r = Some rm0" and "keyHash rm0 \<noteq> []"
    and "rooms (snd (joinRoom p m s)) r = Some rm'"
  shows "keyHash rm' = keyHash rm0"
proof -
  define rid where "rid = trim (str_or_empty (msg_roomId m))"
  define kh where "kh = str_or_empty (msg_roomKeyHash m)"
  define rm where "rm = fst (getOrCreateRoom rid kh s)"
  define s1 where "s1 = snd (getOrCreateRoom rid kh s)"
  define s2 where "s2 = (if keyHash rm = [] \<and> kh \<noteq> []
                         then upd_room rid (\<lambda>r. r\<lparr>keyHash := kh\<rparr>) s1 else s1)"
  define s3 where "s3 = (if \<not> falsy (peer_room s2 p) \<and> peer_room s2 p \<noteq> Some rid
                         then snd (leaveRoom p s2) else s2)"
  define f where "f = (\<lambda>c :: peer. c\<lparr>roomId := Some rid, roomKeyHash := kh,
                                     rtcSupported := (msg_rtcSupported m \<noteq> Some False)\<rparr>)"
  define s5 where "s5 = upd_room rid (\<lambda>r. r\<lparr>peers :=
                          peers_set p (peers r)\<rparr>) (upd_peer p f s3)"
  have g: "getOrCreateRoom rid kh s = (rm, s1)"
    by (simp add: rm_def s1_def)
  have l: "(if \<not> falsy (peer_room s2 p) \<and> peer_room s2 p \<noteq> Some rid
            then leaveRoom p s2 else (Normal, s2)) = (Normal, s3)"
    by (simp add: s3_def prod_eq_iff)
  show ?thesis
  proof (cases "rid = []")
    case True
    with assms show ?thesis
      by (simp add: joinRoom_def rid_def)
  next
    case rid: False
    show ?thesis
    proof (cases "keyHash rm \<noteq> [] \<and> kh \<noteq> keyHash rm")
      case True
      then have "s1 = s"
        unfolding rm_def s1_def by (rule getOrCreateRoom_rejects_only_existing)
      with True rid have "joinRoom p m s = send p RoomKeyMismatch s"
        using g by (simp add: joinRoom_def Let_def rid_def [symmetric] kh_def [symmetric])
      with assms show ?thesis
        by simp
    next
      case acc: False
      have "rooms (snd (joinRoom p m s)) = rooms s5"
        using rid acc
        by (auto simp add: joinRoom_def Let_def rid_def [symmetric] kh_def [symmetric] g l
            s2_def [symmetric] f_def [symmetric] s5_def [symmetric] send_deliver
            split: option.splits)
      with assms(3) have 5: "rooms s5 r = Some rm'"
        by simp
      have "rooms s1 rid = Some rm"
        by (simp add: s1_def rm_def)
      then have "key_kept s1 s2"
        by (auto simp add: s2_def key_kept_def rooms_upd_room)
      moreover have "key_kept s2 s3"
        by (simp add: s3_def key_kept_leaveRoom key_kept_refl)
      moreover have "key_kept s3 s5"
        unfolding s5_def by (rule key_kept_enter)
      ultimately have "key_kept s1 s5"
        by (blast intro: key_kept_trans)
      with 5 obtain rm1 where 1: "rooms s1 r = Some rm1" "keyHash rm1 \<noteq> [] \<longrightarrow> keyHash rm' = keyHash rm1"
        unfolding key_kept_def by blast
      from assms(1) have "rooms s1 r = Some rm0"
        by (auto simp add: s1_def rooms_getOrCreateRoom split: option.splits)
      with 1 assms(2) show ?thesis
        by simp
    qed
  qed
qed

lemma keyHash_step:
  assumes "rooms s r = Some rm" and "keyHash rm \<noteq> []" and "rooms (step e s) r = Some rm'"
  shows "keyHash rm' = keyHash rm"
proof (cases e)
  case (Fetch upgrade uid nm)
  with assms show ?thesis
    by (simp add: step_def fetch_def split: if_splits)
next
  case (Message p f)
  show ?thesis
  proof (cases f)
    case Undecodable
    with Message assms show ?thesis
      by (simp add: step_def on_message_event_def)
  next
    case ParsedNull
    with Message assms show ?thesis
      by (simp add: step_def on_message_event_def)
  next
    case (Parsed m)
    obtain out s' where o: "onMessage p m s = (out, s')"
      by (cases "onMessage p m s")
    have "rooms (step e s) = rooms s'"
      using Message Parsed o by (cases out) (simp_all add: step_def on_message_event_def)
    with assms(3) have "rooms (snd (onMessage p m s)) r = Some rm'"
      by (simp add: o)
    then have "(msg_type m = Some ''join'' \<and> rooms (snd (joinRoom p m s)) r = Some rm')
        \<or> rooms (snd (leaveRoom p s)) r = Some rm' \<or> rooms s r = Some rm'"
      by (auto simp add: onMessage_def split: if_splits)
    then show ?thesis
      using assms(1,2) keyHash_joinRoom [OF assms(1,2), of p m rm']
        key_keptD [OF key_kept_leaveRoom assms(1,2), of p rm']
      by auto
  qed
next
  case (Close p)
  with assms key_keptD [OF key_kept_leaveRoom assms(1,2), of p rm'] show ?thesis
    by (simp add: step_def)
next
  case (SockError p)
  with assms key_keptD [OF key_kept_leaveRoom assms(1,2), of p rm'] show ?thesis
    by (simp add: step_def)
next
  case (Stale p)
  with assms show ?thesis
    by (simp add: step_def)
qed

lemma keyHash_run:
  "alive_through r es s \<Longrightarrow> rooms s r = Some rm \<Longrightarrow> keyHash rm \<noteq> [] \<Longrightarrow>
   \<exists>rm'. rooms (run es s) r = Some rm' \<and> keyHash rm' = keyHash rm"
proof (induction es arbitrary: s rm)
  case Nil
  then show ?case by simp
next
  case (Cons e es)
  from Cons.prems(1) have a: "alive_through r es (step e s)"
    by simp
  then have "rooms (step e s) r \<noteq> None"
    by (cases es) simp_all
  then obtain rm1 where 1: "rooms (step e s) r = Some rm1"
    by blast
  have k: "keyHash rm1 = keyHash rm"
    using keyHash_step [OF Cons.prems(2,3) 1] .
  with Cons.IH [OF a 1] Cons.prems(3) show ?case
    by simp
qed

text \<open>
  C3. Take a join by an existing peer \<open>p\<close> to a registered room \<open>rid\<close>, presenting the key
  \<open>kh\<close>. If the room's secret is empty and \<open>kh\<close> is not, the join succeeds: the room's
  secret becomes \<open>kh\<close>, \<open>p\<close> is entered in the member list and its \<^verbatim>\<open>roomId\<close> is \<open>rid\<close>. If
  the secret is not empty, it is the same after any run of events throughout which the room
  stays registered. If the secret is not empty and differs from \<open>kh\<close>, the registry, and
  with it the room's member list, is unchanged, and \<open>p\<close> receives \<^verbatim>\<open>room-key-mismatch\<close>.
\<close>

theorem admission_secret:
  assumes "trim (str_or_empty (msg_roomId m)) = rid" and "rid \<noteq> []"
    and "str_or_empty (msg_roomKeyHash m) = kh"
    and "rooms s rid = Some rm" and "conns s p = Some c" and "is_open s p"
  shows "(keyHash rm = [] \<and> kh \<noteq> [] \<longrightarrow>
            fst (joinRoom p m s) = Normal \<and>
            rooms (snd (joinRoom p m s)) rid = Some \<lparr>keyHash = kh, peers = peers_set p (peers rm)\<rparr> \<and>
            p \<in> set (peers_set p (peers rm)) \<and>
            peer_room (snd (joinRoom p m s)) p = Some rid) \<and>
         (keyHash rm \<noteq> [] \<longrightarrow>
            (\<forall>es. alive_through rid es s \<longrightarrow>
               (\<exists>rm'. rooms (run es s) rid = Some rm' \<and> keyHash rm' = keyHash rm))) \<and>
         (keyHash rm \<noteq> [] \<and> kh \<noteq> keyHash rm \<longrightarrow>
            rooms (snd (joinRoom p m s)) = rooms s \<and>
            received (snd (joinRoom p m s)) p = received s p @ [RoomKeyMismatch])"
proof (intro conjI impI allI)
  assume a: "keyHash rm = [] \<and> kh \<noteq> []"
  with assms(4) have adm: "admits s rid kh"
    by (simp add: admits_def)
  have mem: "members s rid = peers rm"
    using assms(4) by (simp add: members_def)
  show "fst (joinRoom p m s) = Normal"
    using joinRoom_accepted(3) [OF assms(1,2,3) adm assms(5)] assms(6) by simp
  show "rooms (snd (joinRoom p m s)) rid = Some \<lparr>keyHash = kh, peers = peers_set p (peers rm)\<rparr>"
    using joinRoom_accepted(1) [OF assms(1,2,3) adm assms(5)] mem by simp
  show "p \<in> set (peers_set p (peers rm))"
    by (simp add: peers_set_def)
  show "peer_room (snd (joinRoom p m s)) p = Some rid"
    using joinRoom_accepted(2) [OF assms(1,2,3) adm assms(5)] .
next
  fix es
  assume "keyHash rm \<noteq> []" and "alive_through rid es s"
  with assms(4) show "\<exists>rm'. rooms (run es s) rid = Some rm' \<and> keyHash rm' = keyHash rm"
    by (simp add: keyHash_run)
next
  assume a: "keyHash rm \<noteq> [] \<and> kh \<noteq> keyHash rm"
  with assms(4) have "\<not> admits s rid kh"
    by (simp add: admits_def)
  with assms(1,2,3) have e: "joinRoom p m s = send p RoomKeyMismatch s"
    by (simp add: joinRoom_rejected)
  show "rooms (snd (joinRoom p m s)) = rooms s"
    by (simp add: e)
  show "received (snd (joinRoom p m s)) p = received s p @ [RoomKeyMismatch]"
    using assms(6) by (simp add: e received_send)
qed

theorem admission_secret_witness:
  "rooms keyless (js ''R'') = Some \<lparr>keyHash = [], peers = [''A'']\<rparr>
   \<and> fst (joinRoom ''B'' (join_msg (js ''R'') ''K'') keyless) = Normal
   \<and> rooms (snd (joinRoom ''B'' (join_msg (js ''R'') ''K'') keyless)) (js ''R'')
        = Some \<lparr>keyHash = ''K'', peers = [''A'', ''B'']\<rparr>
   \<and> peer_room (snd (joinRoom ''B'' (join_msg (js ''R'') ''K'') keyless)) ''B'' = Some (js ''R'')
   \<and> rooms lobby (js ''R1'') = Some \<lparr>keyHash = ''k1'', peers = [''A'', ''C'']\<rparr>
   \<and> trim (str_or_empty (msg_roomId (join_msg padded_R1 ''X''))) = js ''R1''
   \<and> alive_through (js ''R1'') [Message ''B'' (Parsed (join_msg (js ''R1'') ''k1'')), Close ''A''] lobby
   \<and> (\<exists>rm'. rooms (run [Message ''B'' (Parsed (join_msg (js ''R1'') ''k1'')), Close ''A''] lobby) (js ''R1'')
          = Some rm' \<and> keyHash rm' = ''k1'')
   \<and> rooms (snd (joinRoom ''B'' (join_msg padded_R1 ''X'') lobby)) = rooms lobby
   \<and> received (snd (joinRoom ''B'' (join_msg padded_R1 ''X'') lobby)) ''B''
        = received lobby ''B'' @ [RoomKeyMismatch]"
proof -
  have m: "\<And>r k. trim (str_or_empty (msg_roomId (join_msg (js ''R'') k))) = (js ''R'')"
    "\<And>k. trim (str_or_empty (msg_roomId (join_msg padded_R1 k))) = (js ''R1'')"
    "\<And>r k. str_or_empty (msg_roomKeyHash (join_msg r k)) = k"
    by (simp_all add: join_msg_def str_or_empty_def)
  have k: "rooms keyless (js ''R'') = Some \<lparr>keyHash = [], peers = [''A'']\<rparr>"
    "conns keyless ''B'' = Some \<lparr>roomId = None, roomKeyHash = [], name = fox, rtcSupported = True,
                    sock_open = True, outbox = []\<rparr>"
    "is_open keyless ''B''"
    by (simp_all add: keyless_eq is_open_def)
  have b: "conns lobby ''B'' = Some \<lparr>roomId = Some (js ''R2''), roomKeyHash = ''k2'', name = fox,
                    rtcSupported = True, sock_open = True,
                    outbox = [Welcome ''B'' (js ''R2'') [] ''Swift-Fox'' ''Swift-Fox Mobile'']\<rparr>"
    "is_open lobby ''B''"
    by (simp_all add: lobby_eq is_open_def)
  have a: "alive_through (js ''R1'') [Message ''B'' (Parsed (join_msg (js ''R1'') ''k1'')), Close ''A''] lobby"
    by (simp add: handler_defs lobby_simps)
  have r: "(js ''R'') \<noteq> []" "(js ''R1'') \<noteq> []"
    by simp_all
  note t1 = admission_secret [OF m(1) r(1) m(3) k, of "''K''"]
  note t2 = admission_secret [OF m(2) r(2) m(3) lobby_rooms(1) b, of "''X''"]
  from t2 have "\<forall>es. alive_through (js ''R1'') es lobby \<longrightarrow>
      (\<exists>rm'. rooms (run es lobby) (js ''R1'') = Some rm' \<and> keyHash rm' = ''k1'')"
    by simp
  with a have e: "\<exists>rm'. rooms (run [Message ''B'' (Parsed (join_msg (js ''R1'') ''k1'')), Close ''A''] lobby)
      (js ''R1'') = Some rm' \<and> keyHash rm' = ''k1''"
    by blast
  from t1 t2 have "fst (joinRoom ''B'' (join_msg (js ''R'') ''K'') keyless) = Normal
      \<and> rooms (snd (joinRoom ''B'' (join_msg (js ''R'') ''K'') keyless)) (js ''R'')
          = Some \<lparr>keyHash = ''K'', peers = [''A'', ''B'']\<rparr>
      \<and> peer_room (snd (joinRoom ''B'' (join_msg (js ''R'') ''K'') keyless)) ''B'' = Some (js ''R'')
      \<and> rooms (snd (joinRoom ''B'' (join_msg padded_R1 ''X'') lobby)) = rooms lobby
      \<and> received (snd (joinRoom ''B'' (join_msg padded_R1 ''X'') lobby)) ''B''
          = received lobby ''B'' @ [RoomKeyMismatch]"
    by (simp add: peers_set_def)
  with a e k(1) lobby_rooms(1) m(2) [of "''X''"] show ?thesis
    by blast
qed

text \<open>
  C7. In a reachable state, a join by a peer \<open>p\<close> with an open socket that passes the key
  check appends exactly one message to what \<open>p\<close> has received: the \<^verbatim>\<open>welcome\<close> with \<open>p\<close>'s
  own id, the room id, \<open>p\<close>'s display and device name, and a roster. The roster has one
  entry for each member the target room had before the join other than \<open>p\<close>, in the
  order of the member list, and the entry of a member is that member's id, capability flag
  and name. Being computed from the state before the join, it has no peer that joins later.
\<close>

theorem welcome_roster:
  assumes "reachable s" and "conns s p = Some c" and "is_open s p"
    and "trim (str_or_empty (msg_roomId m)) = rid" and "rid \<noteq> []"
    and "admits s rid (str_or_empty (msg_roomKeyHash m))"
  shows "fst (joinRoom p m s) = Normal \<and>
         received (snd (joinRoom p m s)) p =
           received s p @
             [Welcome p rid (List.map_filter (info s) (filter (\<lambda>q. q \<noteq> p) (members s rid)))
                (displayName (name c)) (deviceName (name c))] \<and>
         map Some (List.map_filter (info s) (filter (\<lambda>q. q \<noteq> p) (members s rid)))
           = map (\<lambda>q. case conns s q of None \<Rightarrow> None
                       | Some d \<Rightarrow> Some (PeerInfo q (rtcSupported d) (name d)))
               (filter (\<lambda>q. q \<noteq> p) (members s rid))"
proof -
  from assms(1) have cs: "consistent s" and w: "well_keyed s"
    using reachable_invariants by blast+
  from w assms(2) have p: "p \<noteq> []"
    by (auto simp add: well_keyed_def)
  have i: "info s = (\<lambda>q. case conns s q of None \<Rightarrow> None
                       | Some d \<Rightarrow> Some (PeerInfo q (rtcSupported d) (name d)))"
    by (rule ext) (simp add: info_def asPeerInfo_def split: option.splits)
  have "info s q \<noteq> None" if "q \<in> set (filter (\<lambda>q. q \<noteq> p) (members s rid))" for q
  proof -
    from that obtain rm where "rooms s rid = Some rm" "q \<in> set (peers rm)"
      by (auto simp add: mem_members)
    with cs have "peer_room s q = Some rid"
      by (rule consistentD2)
    then show ?thesis
      by (auto simp add: peer_room_def info_def split: option.splits)
  qed
  then have "map Some (List.map_filter (info s) (filter (\<lambda>q. q \<noteq> p) (members s rid)))
      = map (info s) (filter (\<lambda>q. q \<noteq> p) (members s rid))"
    by (rule map_Some_map_filter)
  with joinRoom_accepted(3,4) [OF assms(4,5) refl assms(6,2)] p assms(3) show ?thesis
    by (simp add: i)
qed

theorem welcome_roster_witness:
  "reachable lobby \<and> is_open lobby ''B''
   \<and> trim (str_or_empty (msg_roomId (join_msg padded_R1 ''k1''))) = (js ''R1'')
   \<and> admits lobby (js ''R1'') (str_or_empty (msg_roomKeyHash (join_msg padded_R1 ''k1'')))
   \<and> fst (joinRoom ''B'' (join_msg padded_R1 ''k1'') lobby) = Normal
   \<and> received (snd (joinRoom ''B'' (join_msg padded_R1 ''k1'') lobby)) ''B''
       = received lobby ''B'' @
           [Welcome ''B'' (js ''R1'') [PeerInfo ''A'' True fox, PeerInfo ''C'' True fox]
              ''Swift-Fox'' ''Swift-Fox Mobile'']"
proof -
  have b: "conns lobby ''B'' = Some \<lparr>roomId = Some (js ''R2''), roomKeyHash = ''k2'', name = fox,
                    rtcSupported = True, sock_open = True,
                    outbox = [Welcome ''B'' (js ''R2'') [] ''Swift-Fox'' ''Swift-Fox Mobile'']\<rparr>"
    "is_open lobby ''B''"
    by (simp_all add: lobby_eq is_open_def)
  have m: "trim (str_or_empty (msg_roomId (join_msg padded_R1 ''k1''))) = (js ''R1'')"
    "admits lobby (js ''R1'') (str_or_empty (msg_roomKeyHash (join_msg padded_R1 ''k1'')))"
    "(js ''R1'') \<noteq> []"
    by (simp_all add: join_msg_def str_or_empty_def admits_def lobby_rooms)
  have i: "List.map_filter (info lobby) (filter (\<lambda>q. q \<noteq> ''B'') (members lobby (js ''R1'')))
      = [PeerInfo ''A'' True fox, PeerInfo ''C'' True fox]"
    by (simp add: members_def lobby_rooms map_filter_simps info_def asPeerInfo_def lobby_eq)
  from welcome_roster [OF reachable_lobby b m(1,3,2)] reachable_lobby b(2) m(1,2) i
  show ?thesis
    by (simp add: fox_def)
qed

end
